theory Spec2Isabelle
  imports Complex_Main "HOL-Library.Stream" "HOL-Library.AList"
begin

section \<open>JavaScript numbers and values\<close>

text \<open>
  The content scripts compute with JavaScript numbers. A number is modelled as a real
  number or one of the three special values; arithmetic on the finite values is exact
  (rounding to the nearest double and the sign of zero are left out).
\<close>

datatype jsnum = NaN | NegInf | Fin real | PosInf

text \<open>\<^verbatim>\<open>Math.max\<close> and \<open>Math.min\<close> of two numbers: NaN wins over everything.\<close>

fun Math_max :: "jsnum \<Rightarrow> jsnum \<Rightarrow> jsnum" where
  "Math_max NaN b = NaN"
| "Math_max a NaN = NaN"
| "Math_max PosInf b = PosInf"
| "Math_max a PosInf = PosInf"
| "Math_max NegInf b = b"
| "Math_max a NegInf = a"
| "Math_max (Fin x) (Fin y) = Fin (max x y)"

fun Math_min :: "jsnum \<Rightarrow> jsnum \<Rightarrow> jsnum" where
  "Math_min NaN b = NaN"
| "Math_min a NaN = NaN"
| "Math_min NegInf b = NegInf"
| "Math_min a NegInf = NegInf"
| "Math_min PosInf b = b"
| "Math_min a PosInf = a"
| "Math_min (Fin x) (Fin y) = Fin (min x y)"

text \<open>\<^verbatim>\<open>const clamp = (value, min, max) => Math.min(Math.max(value, min), max);\<close>\<close>

definition clamp :: "jsnum \<Rightarrow> jsnum \<Rightarrow> jsnum \<Rightarrow> jsnum" where
  "clamp v lo hi = Math_min (Math_max v lo) hi"

text \<open>The comparison \<open>a <= b\<close> of two numbers: false as soon as one of them is NaN.\<close>

fun jsLe :: "jsnum \<Rightarrow> jsnum \<Rightarrow> bool" where
  "jsLe NaN b = False"
| "jsLe a NaN = False"
| "jsLe NegInf b = True"
| "jsLe a PosInf = True"
| "jsLe PosInf b = False"
| "jsLe a NegInf = False"
| "jsLe (Fin x) (Fin y) = (x \<le> y)"

text \<open>
  \<open>a / d\<close> and \<open>a * d\<close> for a positive finite constant \<open>d\<close>: the only divisions and
  scalings in the source are by the literals 100, 128 and 255.
\<close>

fun jsDiv :: "jsnum \<Rightarrow> real \<Rightarrow> jsnum" where
  "jsDiv (Fin x) d = Fin (x / d)"
| "jsDiv a d = a"

fun jsMul :: "jsnum \<Rightarrow> real \<Rightarrow> jsnum" where
  "jsMul (Fin x) d = Fin (x * d)"
| "jsMul a d = a"

text \<open>
  \<^verbatim>\<open>Number.prototype.toString\<close> in plain decimal notation: the integer part, and the
  fractional digits when there are any. It is exact for every number that is a decimal
  fraction of at most \<open>fractionDigits\<close> places; a longer expansion is cut there, where the
  engine would print the shortest digits that read back as the same double.
\<close>

definition digitChar :: "nat \<Rightarrow> char" where
  "digitChar d = ''0123456789'' ! (d mod 10)"

fun natDigits :: "nat \<Rightarrow> string" where
  "natDigits n =
     (if n < 10 then [digitChar n] else natDigits (n div 10) @ [digitChar (n mod 10)])"

fun fracDigits :: "nat \<Rightarrow> real \<Rightarrow> string" where
  "fracDigits 0 r = []"
| "fracDigits (Suc k) r =
     (if r = 0 then []
      else (let d = nat \<lfloor>r * 10\<rfloor> in digitChar d # fracDigits k (r * 10 - real d)))"

definition fractionDigits :: nat where
  "fractionDigits = 17"

definition decimalString :: "real \<Rightarrow> string" where
  "decimalString x =
     natDigits (nat \<lfloor>x\<rfloor>) @
     (if frac x = 0 then [] else ''.'' @ fracDigits fractionDigits (frac x))"

fun Number_toString :: "jsnum \<Rightarrow> string" where
  "Number_toString NaN = ''NaN''"
| "Number_toString PosInf = ''Infinity''"
| "Number_toString NegInf = ''-Infinity''"
| "Number_toString (Fin x) = (if x < 0 then ''-'' @ decimalString (- x) else decimalString x)"

text \<open>
  The values that reach the scripts from storage and from extension messages are JSON
  values, and \<open>undefined\<close> for a field that is absent.
\<close>

datatype jsval =
    JUndefined
  | JNull
  | JBool bool
  | JNumber jsnum
  | JString string
  | JArray "jsval list"
  | JObject "(string \<times> jsval) list"

text \<open>
  The conversions of the language that the scripts do not define themselves: reading a
  string as a number, and rendering an array or an object as the string that is then
  read as a number. They are parameters of the model.
\<close>

record builtins =
  StringToNumber :: "string \<Rightarrow> jsnum"
  ObjectToString :: "jsval \<Rightarrow> string"

text \<open>\<^verbatim>\<open>Number(v)\<close>.\<close>

fun Number_of :: "builtins \<Rightarrow> jsval \<Rightarrow> jsnum" where
  "Number_of b JUndefined = NaN"
| "Number_of b JNull = Fin 0"
| "Number_of b (JBool t) = (if t then Fin 1 else Fin 0)"
| "Number_of b (JNumber n) = n"
| "Number_of b (JString s) = StringToNumber b s"
| "Number_of b (JArray vs) = StringToNumber b (ObjectToString b (JArray vs))"
| "Number_of b (JObject fs) = StringToNumber b (ObjectToString b (JObject fs))"

text \<open>Truthiness, as \<open>&&\<close> and \<open>if\<close> test it.\<close>

fun truthy :: "jsval \<Rightarrow> bool" where
  "truthy JUndefined = False"
| "truthy JNull = False"
| "truthy (JBool t) = t"
| "truthy (JNumber n) = (n \<noteq> NaN \<and> n \<noteq> Fin 0)"
| "truthy (JString s) = (s \<noteq> [])"
| "truthy (JArray vs) = True"
| "truthy (JObject fs) = True"

text \<open>
  Property access \<open>v.k\<close> for one of the two setting names: an object gives the field or
  \<open>undefined\<close>; a primitive or an array has no such property. \<open>v?.k\<close> is the same, and
  \<open>undefined\<close> for \<open>null\<close> and \<open>undefined\<close>, where \<open>v.k\<close> would throw (the source reads
  \<open>v.k\<close> only behind a truthiness test).
\<close>

fun getProp :: "jsval \<Rightarrow> string \<Rightarrow> jsval" where
  "getProp (JObject fs) k = (case map_of fs k of Some v \<Rightarrow> v | None \<Rightarrow> JUndefined)"
| "getProp v k = JUndefined"

definition optProp :: "jsval \<Rightarrow> string \<Rightarrow> jsval" where
  "optProp v k = getProp v k"

section \<open>Settings\<close>

record settings =
  noiseType :: string
  intensity :: jsnum

definition DEFAULT_SETTINGS :: settings where
  "DEFAULT_SETTINGS = \<lparr>noiseType = ''uniform'', intensity = Fin 20\<rparr>"

definition SUPPORTED_NOISE_TYPES :: "string list" where
  "SUPPORTED_NOISE_TYPES = [''uniform'', ''gaussian'']"

text \<open>\<^verbatim>\<open>SUPPORTED_NOISE_TYPES.has(v)\<close>: only the two strings are members.\<close>

fun supported :: "jsval \<Rightarrow> string option" where
  "supported (JString s) = (if s \<in> set SUPPORTED_NOISE_TYPES then Some s else None)"
| "supported v = None"

text \<open>A settings object as a value, for \<^verbatim>\<open>applySettings(updated)\<close>.\<close>

definition settingsObject :: "settings \<Rightarrow> jsval" where
  "settingsObject s =
     JObject [(''noiseType'', JString (noiseType s)), (''intensity'', JNumber (intensity s))]"

text \<open>
  \<^verbatim>\<open>
  const normalizeSettings = (settings) => {
    const merged = { ...DEFAULT_SETTINGS };
    if (settings && SUPPORTED_NOISE_TYPES.has(settings.noiseType)) {
      merged.noiseType = settings.noiseType;
    }
    const parsedIntensity = Number(settings?.intensity);
    if (!Number.isNaN(parsedIntensity)) {
      merged.intensity = clamp(parsedIntensity, 0.5, 100);
    }
    return merged;
  };
  \<close>
\<close>

definition normalizeSettings :: "builtins \<Rightarrow> jsval \<Rightarrow> settings" where
  "normalizeSettings b raw =
     (let merged = DEFAULT_SETTINGS;
          merged1 =
            (case (if truthy raw then supported (getProp raw ''noiseType'') else None) of
               Some t \<Rightarrow> merged\<lparr>noiseType := t\<rparr>
             | None \<Rightarrow> merged);
          parsedIntensity = Number_of b (optProp raw ''intensity'')
      in if parsedIntensity \<noteq> NaN
         then merged1\<lparr>intensity := clamp parsedIntensity (Fin (1/2)) (Fin 100)\<rparr>
         else merged1)"

text \<open>
  \<^verbatim>\<open>
  const overlayOpacityFromIntensity = (intensity) => {
    const normalized = clamp(intensity / 100, 0.005, 1);
    return normalized.toString();
  };
  \<close>
  The quotient is exact here and rounded to a double in the code, so the digits can
  differ where the double is not the decimal fraction: for the intensity 0.7 the code
  gives \<open>0.006999999999999999\<close> and this function \<open>0.007\<close>. The bounds, the order and the
  strings for 20, 0.5 and 100 are the same.
\<close>

definition overlayOpacityFromIntensity :: "jsnum \<Rightarrow> string" where
  "overlayOpacityFromIntensity i =
     (let normalized = clamp (jsDiv i 100) (Fin (1/200)) (Fin 1)
      in Number_toString normalized)"

section \<open>Noise generator\<close>

text \<open>
  \<^verbatim>\<open>Math.floor\<close>, and the conversion of a number stored into a \<open>Uint8ClampedArray\<close>
  (the pixel data of a canvas): NaN becomes 0, the value is clamped into \<open>[0, 255]\<close> and
  rounded to the nearest integer, a tie to the even one.
\<close>

fun Math_floor :: "jsnum \<Rightarrow> jsnum" where
  "Math_floor (Fin x) = Fin (of_int \<lfloor>x\<rfloor>)"
| "Math_floor a = a"

definition roundHalfEven :: "real \<Rightarrow> nat" where
  "roundHalfEven x =
     (let f = nat \<lfloor>x\<rfloor> in
      if frac x < 1/2 then f else if 1/2 < frac x then Suc f
      else if even f then f else Suc f)"

fun ToUint8Clamp :: "jsnum \<Rightarrow> nat" where
  "ToUint8Clamp NaN = 0"
| "ToUint8Clamp NegInf = 0"
| "ToUint8Clamp PosInf = 255"
| "ToUint8Clamp (Fin x) =
     (if x \<le> 0 then 0 else if 255 \<le> x then 255 else roundHalfEven x)"

text \<open>
  \<^verbatim>\<open>Math.random()\<close> reads the next element of a stream of draws, each in \<open>[0, 1)\<close>.
  \<^verbatim>\<open>let u = 0; while (u === 0) u = Math.random();\<close> draws until the draw is not zero;
  on a stream of zeros it never returns, which is the value \<open>None\<close>.
\<close>

partial_function (option) nonZeroDraw :: "real stream \<Rightarrow> (real \<times> real stream) option" where
  "nonZeroDraw rs = (if shd rs = 0 then nonZeroDraw (stl rs) else Some (shd rs, stl rs))"

text \<open>
  \<^verbatim>\<open>
  const randomGaussianUnit = () => {
    let u = 0;
    let v = 0;
    while (u === 0) u = Math.random();
    while (v === 0) v = Math.random();
    const standardNormal = Math.sqrt(-2.0 * Math.log(u)) * Math.cos(2.0 * Math.PI * v);
    const normalized = (standardNormal + 3) / 6; // approx clamp to [0,1]
    return clamp(normalized, 0, 1);
  };
  \<close>
\<close>

definition randomGaussianUnit :: "real stream \<Rightarrow> (jsnum \<times> real stream) option" where
  "randomGaussianUnit rs =
     (case nonZeroDraw rs of
        None \<Rightarrow> None
      | Some (u, rs1) \<Rightarrow>
          (case nonZeroDraw rs1 of
             None \<Rightarrow> None
           | Some (v, rs2) \<Rightarrow>
               (let standardNormal = sqrt (- 2 * ln u) * cos (2 * pi * v);
                    normalized = (standardNormal + 3) / 6
                in Some (clamp (Fin normalized) (Fin 0) (Fin 1), rs2))))"

text \<open>
  The body of the pixel loop of \<open>createNoiseDataUrl\<close>: the grey level of one pixel.
  \<^verbatim>\<open>
      let shadeValue = Math.random();
      if (type === 'gaussian') {
        shadeValue = randomGaussianUnit();
      }
      const shade = Math.floor(shadeValue * 255);
  \<close>
\<close>

definition noiseShade :: "string \<Rightarrow> real stream \<Rightarrow> (nat \<times> real stream) option" where
  "noiseShade t rs =
     (let shadeValue = Fin (shd rs); rs1 = stl rs in
      if t = ''gaussian''
      then (case randomGaussianUnit rs1 of
              None \<Rightarrow> None
            | Some (g, rs2) \<Rightarrow> Some (ToUint8Clamp (Math_floor (jsMul g 255)), rs2))
      else Some (ToUint8Clamp (Math_floor (jsMul shadeValue 255)), rs1))"

text \<open>
  The loop \<^verbatim>\<open>for (let i = 0; i < data.length; i += 4)\<close> over the \<open>n\<close> pixels of the image
  data: each pixel gets its shade in the three colour channels and 255 as alpha.
\<close>

fun noisePixels :: "string \<Rightarrow> nat \<Rightarrow> real stream \<Rightarrow> (nat list \<times> real stream) option" where
  "noisePixels t 0 rs = Some ([], rs)"
| "noisePixels t (Suc n) rs =
     (case noiseShade t rs of
        None \<Rightarrow> None
      | Some (shade, rs1) \<Rightarrow>
          (case noisePixels t n rs1 of
             None \<Rightarrow> None
           | Some (data, rs2) \<Rightarrow> Some (shade # shade # shade # 255 # data, rs2)))"

text \<open>
  What the page and the browser give the scripts: the language's conversions, whether a
  canvas yields a 2D context, the PNG data URL of a canvas (width, height, RGBA bytes),
  the state of the extension's message channel, the outcome of drawing an image (by its
  node id) and reading its pixels back, and the clock.
\<close>

datatype jsError = Error (message: string)

datatype channel = Unavailable | Throws | Delivers

record host =
  ecma :: builtins
  canvasContext :: bool
  toDataURL :: "nat \<Rightarrow> nat \<Rightarrow> nat list \<Rightarrow> string"
  runtimeSendMessage :: channel
  readPixels :: "nat \<Rightarrow> jsError + nat list"
  now :: nat

text \<open>
  \<^verbatim>\<open>
  const createNoiseDataUrl = (type = DEFAULT_SETTINGS.noiseType, size = 128) => {
    const canvas = document.createElement('canvas');
    canvas.width = size;
    canvas.height = size;
    const ctx = canvas.getContext('2d');
    if (!ctx) {
      return '';
    }
    const imageData = ctx.createImageData(size, size);
    const { data } = imageData;
    for (let i = 0; i < data.length; i += 4) { ... }
    ctx.putImageData(imageData, 0, 0);
    return canvas.toDataURL('image/png');
  };
  \<close>
  The selection script has the same function under the name \<open>createNoisePattern\<close>.
\<close>

definition createNoiseDataUrl ::
  "host \<Rightarrow> string \<Rightarrow> nat \<Rightarrow> real stream \<Rightarrow> (string \<times> real stream) option" where
  "createNoiseDataUrl h t side rs =
     (if \<not> canvasContext h then Some ([], rs)
      else (case noisePixels t (side * side) rs of
              None \<Rightarrow> None
            | Some (data, rs1) \<Rightarrow> Some (toDataURL h side side data, rs1)))"

definition createNoisePattern ::
  "host \<Rightarrow> string \<Rightarrow> nat \<Rightarrow> real stream \<Rightarrow> (string \<times> real stream) option" where
  "createNoisePattern = createNoiseDataUrl"

section \<open>The document\<close>

text \<open>
  The scripts work on the page's DOM. A node has an identity (\<open>eid\<close>), the properties the
  scripts read or write, and its children in document order. The page is a forest: the
  tree under the Document node (\<open>nodeType\<close> 9) and the trees that are detached from it;
  the root of a tree has no parent. A once-only \<open>load\<close> listener that a script registers
  on an image is recorded with the image.
\<close>

datatype listener =
    DoApply
  | DoApplySelection
  | ExportOnLoad settings nat nat

record props =
  nodeType :: nat
  tagName :: string
  classList :: "string list"
  attributes :: "(string \<times> string) list"
  backgroundImage :: string
  opacity :: string
  isComplete :: bool
  naturalWidth :: nat
  naturalHeight :: nat
  loadListeners :: "listener list"

datatype elem = Elem (eid: nat) (eprops: props) (kids: "elem list")

definition ELEMENT_NODE :: nat where
  "ELEMENT_NODE = 1"

definition DOCUMENT_NODE :: nat where
  "DOCUMENT_NODE = 9"

definition NOISE_APPLIED_ATTR :: string where
  "NOISE_APPLIED_ATTR = ''data-ani-noise-applied''"

definition NOISE_WRAPPER_CLASS :: string where
  "NOISE_WRAPPER_CLASS = ''ani-noise-wrapper''"

definition NOISE_OVERLAY_CLASS :: string where
  "NOISE_OVERLAY_CLASS = ''ani-noise-overlay''"

definition SELECTED_CLASS :: string where
  "SELECTED_CLASS = ''ani-noise-selected-image''"

text \<open>The nodes of a tree and of a forest in document order, as identity and properties.\<close>

fun nodesT :: "elem \<Rightarrow> (nat \<times> props) list" where
  "nodesT (Elem i p ks) = (i, p) # concat (map nodesT ks)"

definition nodes :: "elem list \<Rightarrow> (nat \<times> props) list" where
  "nodes ts = concat (map nodesT ts)"

fun firstSome :: "'a option list \<Rightarrow> 'a option" where
  "firstSome [] = None"
| "firstSome (None # xs) = firstSome xs"
| "firstSome (Some x # xs) = Some x"

text \<open>The node with a given identity.\<close>

fun lookupT :: "nat \<Rightarrow> elem \<Rightarrow> elem option" where
  "lookupT i (Elem j p ks) =
     (if i = j then Some (Elem j p ks) else firstSome (map (lookupT i) ks))"

definition lookup :: "nat \<Rightarrow> elem list \<Rightarrow> elem option" where
  "lookup i ts = firstSome (map (lookupT i) ts)"

text \<open>The node and its ancestors, the node first and the root last.\<close>

fun pathT :: "nat \<Rightarrow> elem \<Rightarrow> (nat \<times> props) list option" where
  "pathT i (Elem j p ks) =
     (if i = j then Some [(j, p)]
      else (case firstSome (map (pathT i) ks) of
              None \<Rightarrow> None
            | Some c \<Rightarrow> Some (c @ [(j, p)])))"

definition pathTo :: "nat \<Rightarrow> elem list \<Rightarrow> (nat \<times> props) list option" where
  "pathTo i ts = firstSome (map (pathT i) ts)"

text \<open>An element matches the selector \<open>.c\<close> when \<open>c\<close> is one of its classes.\<close>

definition matches :: "string \<Rightarrow> nat \<times> props \<Rightarrow> bool" where
  "matches c jp = (nodeType (snd jp) = ELEMENT_NODE \<and> c \<in> set (classList (snd jp)))"

text \<open>\<^verbatim>\<open>node.closest('.c')\<close>: the nearest of the node and its ancestors that matches.\<close>

definition closest :: "string \<Rightarrow> nat \<Rightarrow> elem list \<Rightarrow> nat option" where
  "closest c i ts =
     (case pathTo i ts of
        None \<Rightarrow> None
      | Some path \<Rightarrow> map_option fst (find (matches c) path))"

text \<open>\<^verbatim>\<open>node.parentNode\<close>.\<close>

definition parentNode :: "nat \<Rightarrow> elem list \<Rightarrow> nat option" where
  "parentNode i ts =
     (case pathTo i ts of
        Some (x # y # path) \<Rightarrow> Some (fst y)
      | _ \<Rightarrow> None)"

text \<open>\<^verbatim>\<open>node.querySelector('.c')\<close>: the first descendant in document order that matches.\<close>

definition querySelector :: "string \<Rightarrow> nat \<Rightarrow> elem list \<Rightarrow> nat option" where
  "querySelector c w ts =
     (case lookup w ts of
        None \<Rightarrow> None
      | Some e \<Rightarrow> map_option fst (find (matches c) (nodes (kids e))))"

text \<open>\<^verbatim>\<open>document.querySelectorAll('.c')\<close>: the matching nodes under the Document node.\<close>

definition documentNodes :: "elem list \<Rightarrow> (nat \<times> props) list" where
  "documentNodes ts =
     nodes (concat (map (\<lambda>r. if nodeType (eprops r) = DOCUMENT_NODE then kids r else []) ts))"

definition querySelectorAll :: "string \<Rightarrow> elem list \<Rightarrow> nat list" where
  "querySelectorAll c ts = map fst (filter (matches c) (documentNodes ts))"

text \<open>Writing properties of a node; appending a new child; removing a node.\<close>

fun updateProps :: "nat \<Rightarrow> (props \<Rightarrow> props) \<Rightarrow> elem \<Rightarrow> elem" where
  "updateProps i g (Elem j p ks) =
     Elem j (if j = i then g p else p) (map (updateProps i g) ks)"

fun appendChild :: "nat \<Rightarrow> elem \<Rightarrow> elem \<Rightarrow> elem" where
  "appendChild w c (Elem j p ks) =
     Elem j p (map (appendChild w c) ks @ (if j = w then [c] else []))"

fun removeNode :: "nat \<Rightarrow> elem \<Rightarrow> elem list" where
  "removeNode x (Elem j p ks) =
     (if j = x then [] else [Elem j p (concat (map (removeNode x) ks))])"

text \<open>
  \<^verbatim>\<open>parent.insertBefore(wrapper, image); wrapper.appendChild(image);\<close> puts the new wrapper
  in the image's place and the image, with its subtree, inside the wrapper.
\<close>

fun wrapNode :: "nat \<Rightarrow> nat \<Rightarrow> props \<Rightarrow> elem \<Rightarrow> elem" where
  "wrapNode i w wp (Elem j p ks) =
     (if j = i then Elem w wp [Elem j p ks]
      else Elem j p (map (wrapNode i w wp) ks))"

text \<open>\<^verbatim>\<open>document.createElement(tag)\<close>: a new element, under an identity no node has.\<close>

definition createElement :: "string \<Rightarrow> props" where
  "createElement t =
     \<lparr>nodeType = ELEMENT_NODE, tagName = t, classList = [], attributes = [],
      backgroundImage = [], opacity = [], isComplete = False,
      naturalWidth = 0, naturalHeight = 0, loadListeners = []\<rparr>"

definition freshId :: "elem list \<Rightarrow> nat" where
  "freshId ts = Suc (fold max (map fst (nodes ts)) 0)"

definition getAttribute :: "nat \<Rightarrow> string \<Rightarrow> elem list \<Rightarrow> string option" where
  "getAttribute i k ts =
     (case lookup i ts of None \<Rightarrow> None | Some e \<Rightarrow> map_of (attributes (eprops e)) k)"

definition setAttribute :: "nat \<Rightarrow> string \<Rightarrow> string \<Rightarrow> elem list \<Rightarrow> elem list" where
  "setAttribute i k v ts =
     map (updateProps i (\<lambda>p. p\<lparr>attributes := AList.update k v (attributes p)\<rparr>)) ts"

definition removeAttribute :: "nat \<Rightarrow> string \<Rightarrow> elem list \<Rightarrow> elem list" where
  "removeAttribute i k ts =
     map (updateProps i (\<lambda>p. p\<lparr>attributes := AList.delete k (attributes p)\<rparr>)) ts"

definition classList_add :: "nat \<Rightarrow> string \<Rightarrow> elem list \<Rightarrow> elem list" where
  "classList_add i c ts =
     map (updateProps i
       (\<lambda>p. p\<lparr>classList := (if c \<in> set (classList p) then classList p
                               else classList p @ [c])\<rparr>)) ts"

definition classList_remove :: "nat \<Rightarrow> string \<Rightarrow> elem list \<Rightarrow> elem list" where
  "classList_remove i c ts =
     map (updateProps i (\<lambda>p. p\<lparr>classList := removeAll c (classList p)\<rparr>)) ts"

definition addLoadListener :: "nat \<Rightarrow> listener \<Rightarrow> elem list \<Rightarrow> elem list" where
  "addLoadListener i l ts =
     map (updateProps i (\<lambda>p. p\<lparr>loadListeners := loadListeners p @ [l]\<rparr>)) ts"

section \<open>Overlay manager\<close>

text \<open>
  The state of a content script on a page: the DOM, the script's variables, the random
  source, and what it has sent (responses to requests and runtime messages).
\<close>

datatype response =
    ROk
  | RFail string
  | RData string nat
  | RHasSelected bool

datatype out =
    Response response
  | SelectionChanged bool
  | NoiseAppliedFeedback

record page =
  document :: "elem list"
  currentSettings :: settings
  noisePattern :: string
  selectedImage :: "nat option"
  random :: "real stream"
  outbox :: "out list"

text \<open>
  \<^verbatim>\<open>
  const ensureWrapper = (image) => {
    const existing = image.closest(`.${NOISE_WRAPPER_CLASS}`);
    if (existing) {
      return existing;
    }
    const wrapper = document.createElement('span');
    wrapper.className = NOISE_WRAPPER_CLASS;
    const parent = image.parentNode;
    if (!parent) {
      return null;
    }
    parent.insertBefore(wrapper, image);
    wrapper.appendChild(image);
    return wrapper;
  };
  \<close>
\<close>

definition ensureWrapper :: "elem list \<Rightarrow> nat \<Rightarrow> nat option \<times> elem list" where
  "ensureWrapper ts img =
     (case closest NOISE_WRAPPER_CLASS img ts of
        Some existing \<Rightarrow> (Some existing, ts)
      | None \<Rightarrow>
          (let wrapper = freshId ts;
               wp = (createElement ''span'')\<lparr>classList := [NOISE_WRAPPER_CLASS]\<rparr>
           in case parentNode img ts of
                None \<Rightarrow> (None, ts)
              | Some parent \<Rightarrow> (Some wrapper, map (wrapNode img wrapper wp) ts)))"

text \<open>
  \<^verbatim>\<open>
  const applyOverlaySettings = (overlay) => {
    overlay.style.backgroundImage = noisePattern ? `url(${noisePattern})` : '';
    overlay.style.opacity = overlayOpacityFromIntensity(currentSettings.intensity);
  };
  const createOverlay = () => {
    const overlay = document.createElement('span');
    overlay.className = NOISE_OVERLAY_CLASS;
    applyOverlaySettings(overlay);
    return overlay;
  };
  \<close>
\<close>

definition overlayStyle :: "page \<Rightarrow> props \<Rightarrow> props" where
  "overlayStyle s p =
     p\<lparr>backgroundImage :=
          (if noisePattern s \<noteq> [] then ''url('' @ noisePattern s @ '')'' else []),
       opacity := overlayOpacityFromIntensity (intensity (currentSettings s))\<rparr>"

definition applyOverlaySettings :: "page \<Rightarrow> nat \<Rightarrow> page" where
  "applyOverlaySettings s overlay =
     s\<lparr>document := map (updateProps overlay (overlayStyle s)) (document s)\<rparr>"

definition createOverlay :: "page \<Rightarrow> props" where
  "createOverlay s =
     overlayStyle s ((createElement ''span'')\<lparr>classList := [NOISE_OVERLAY_CLASS]\<rparr>)"

text \<open>
  \<open>applyNoise\<close> of the page-wide script.
  \<^verbatim>\<open>
  const applyNoise = (image) => {
    if (!image || image.nodeType !== Node.ELEMENT_NODE) {
      return;
    }
    if (image.getAttribute(NOISE_APPLIED_ATTR) === 'true') {
      return;
    }
    const doApply = () => {
      const wrapper = ensureWrapper(image);
      if (!wrapper) {
        return;
      }
      if (wrapper.querySelector(`.${NOISE_OVERLAY_CLASS}`)) {
        image.setAttribute(NOISE_APPLIED_ATTR, 'true');
        return;
      }
      const overlay = createOverlay();
      wrapper.appendChild(overlay);
      image.setAttribute(NOISE_APPLIED_ATTR, 'true');
    };
    if (image.complete && image.naturalWidth > 0) {
      doApply();
    } else {
      image.addEventListener('load', doApply, { once: true });
    }
  };
  \<close>
\<close>

definition doApply :: "page \<Rightarrow> nat \<Rightarrow> page" where
  "doApply s img =
     (case ensureWrapper (document s) img of
        (None, ts) \<Rightarrow> s
      | (Some wrapper, ts) \<Rightarrow>
          (case querySelector NOISE_OVERLAY_CLASS wrapper ts of
             Some existing \<Rightarrow> s\<lparr>document := setAttribute img NOISE_APPLIED_ATTR ''true'' ts\<rparr>
           | None \<Rightarrow>
               (let overlay = Elem (freshId ts) (createOverlay s) [];
                    ts1 = map (appendChild wrapper overlay) ts
                in s\<lparr>document := setAttribute img NOISE_APPLIED_ATTR ''true'' ts1\<rparr>)))"

definition applyNoise :: "page \<Rightarrow> nat \<Rightarrow> page" where
  "applyNoise s img =
     (case lookup img (document s) of
        None \<Rightarrow> s
      | Some e \<Rightarrow>
          if nodeType (eprops e) \<noteq> ELEMENT_NODE then s
          else if getAttribute img NOISE_APPLIED_ATTR (document s) = Some ''true'' then s
          else if isComplete (eprops e) \<and> 0 < naturalWidth (eprops e) then doApply s img
          else s\<lparr>document := addLoadListener img DoApply (document s)\<rparr>)"

text \<open>
  \<open>applyNoise\<close> of the selection script: no test of the processed marker, and an
  overlay that exists gets the current settings again.
  \<^verbatim>\<open>
  const applyNoise = (image) => {
    if (!image || image.nodeType !== Node.ELEMENT_NODE) {
      return;
    }
    const doApply = () => {
      const wrapper = ensureWrapper(image);
      if (!wrapper) {
        return;
      }
      const existing = wrapper.querySelector(`.${NOISE_OVERLAY_CLASS}`);
      if (existing) {
        applyOverlaySettings(existing);
        image.setAttribute(NOISE_APPLIED_ATTR, 'true');
        return;
      }
      const overlay = createOverlay();
      wrapper.appendChild(overlay);
      image.setAttribute(NOISE_APPLIED_ATTR, 'true');
    };
    if (image.complete && image.naturalWidth > 0) {
      doApply();
    } else {
      image.addEventListener('load', doApply, { once: true });
    }
  };
  \<close>
\<close>

definition doApply_selection :: "page \<Rightarrow> nat \<Rightarrow> page" where
  "doApply_selection s img =
     (case ensureWrapper (document s) img of
        (None, ts) \<Rightarrow> s
      | (Some wrapper, ts) \<Rightarrow>
          (case querySelector NOISE_OVERLAY_CLASS wrapper ts of
             Some existing \<Rightarrow>
               s\<lparr>document := setAttribute img NOISE_APPLIED_ATTR ''true''
                           (map (updateProps existing (overlayStyle s)) ts)\<rparr>
           | None \<Rightarrow>
               (let overlay = Elem (freshId ts) (createOverlay s) [];
                    ts1 = map (appendChild wrapper overlay) ts
                in s\<lparr>document := setAttribute img NOISE_APPLIED_ATTR ''true'' ts1\<rparr>)))"

definition applyNoise_selection :: "page \<Rightarrow> nat \<Rightarrow> page" where
  "applyNoise_selection s img =
     (case lookup img (document s) of
        None \<Rightarrow> s
      | Some e \<Rightarrow>
          if nodeType (eprops e) \<noteq> ELEMENT_NODE then s
          else if isComplete (eprops e) \<and> 0 < naturalWidth (eprops e)
               then doApply_selection s img
          else s\<lparr>document := addLoadListener img DoApplySelection (document s)\<rparr>)"

text \<open>
  \<^verbatim>\<open>
  const refreshAllOverlays = () => {
    document.querySelectorAll(`.${NOISE_OVERLAY_CLASS}`).forEach((overlay) => {
      applyOverlaySettings(overlay);
    });
  };
  \<close>
\<close>

definition refreshAllOverlays :: "page \<Rightarrow> page" where
  "refreshAllOverlays s =
     fold (\<lambda>overlay s'. applyOverlaySettings s' overlay)
       (querySelectorAll NOISE_OVERLAY_CLASS (document s)) s"

text \<open>
  \<^verbatim>\<open>
  const removeOverlay = (image) => {
    const wrapper = image.closest(`.${NOISE_WRAPPER_CLASS}`);
    if (!wrapper) {
      return;
    }
    const overlay = wrapper.querySelector(`.${NOISE_OVERLAY_CLASS}`);
    if (overlay) {
      overlay.remove();
    }
    image.removeAttribute(NOISE_APPLIED_ATTR);
  };
  \<close>
\<close>

definition removeOverlay :: "page \<Rightarrow> nat \<Rightarrow> page" where
  "removeOverlay s img =
     (case closest NOISE_WRAPPER_CLASS img (document s) of
        None \<Rightarrow> s
      | Some wrapper \<Rightarrow>
          (let ts = (case querySelector NOISE_OVERLAY_CLASS wrapper (document s) of
                       Some overlay \<Rightarrow> concat (map (removeNode overlay) (document s))
                     | None \<Rightarrow> document s)
           in s\<lparr>document := removeAttribute img NOISE_APPLIED_ATTR ts\<rparr>))"

section \<open>Selection\<close>

text \<open>
  \<^verbatim>\<open>
  const notifySelectionChanged = () => {
    if (!chromeApi?.runtime?.sendMessage) {
      return;
    }
    try {
      chromeApi.runtime.sendMessage({
        type: 'ANI_SELECTION_CHANGED',
        hasSelected: Boolean(selectedImage),
      });
    } catch (error) {
      // ignore
    }
  };
  \<close>
\<close>

definition notifySelectionChanged :: "host \<Rightarrow> page \<Rightarrow> page" where
  "notifySelectionChanged h s =
     (case runtimeSendMessage h of
        Unavailable \<Rightarrow> s
      | Throws \<Rightarrow> s
      | Delivers \<Rightarrow> s\<lparr>outbox := outbox s @ [SelectionChanged (selectedImage s \<noteq> None)]\<rparr>)"

text \<open>
  \<^verbatim>\<open>
  const selectImage = (image) => {
    if (selectedImage === image) {
      return;
    }
    if (selectedImage) {
      selectedImage.classList.remove(SELECTED_CLASS);
      removeOverlay(selectedImage);
    }
    selectedImage = image;
    selectedImage.classList.add(SELECTED_CLASS);
    applyNoise(selectedImage);
    notifySelectionChanged();
  };
  \<close>
\<close>

definition selectImage :: "host \<Rightarrow> page \<Rightarrow> nat \<Rightarrow> page" where
  "selectImage h s img =
     (if selectedImage s = Some img then s
      else
        (let s1 = (case selectedImage s of
                     None \<Rightarrow> s
                   | Some old \<Rightarrow>
                       removeOverlay (s\<lparr>document := classList_remove old SELECTED_CLASS (document s)\<rparr>) old);
             s2 = s1\<lparr>selectedImage := Some img\<rparr>;
             s3 = s2\<lparr>document := classList_add img SELECTED_CLASS (document s2)\<rparr>;
             s4 = applyNoise_selection s3 img
         in notifySelectionChanged h s4))"

text \<open>
  \<^verbatim>\<open>
  const clearSelection = () => {
    if (!selectedImage) {
      return;
    }
    selectedImage.classList.remove(SELECTED_CLASS);
    removeOverlay(selectedImage);
    selectedImage = null;
    notifySelectionChanged();
  };
  \<close>
\<close>

definition clearSelection :: "host \<Rightarrow> page \<Rightarrow> page" where
  "clearSelection h s =
     (case selectedImage s of
        None \<Rightarrow> s
      | Some old \<Rightarrow>
          (let s1 = removeOverlay (s\<lparr>document := classList_remove old SELECTED_CLASS (document s)\<rparr>) old
           in notifySelectionChanged h (s1\<lparr>selectedImage := None\<rparr>)))"

section \<open>Messages\<close>

text \<open>
  The user-facing messages of the selection script are Korean string literals. Each is
  given here as the UTF-8 bytes of the literal in the source, with its meaning.
\<close>

text \<open>"There is no selected image."\<close>

definition noSelectedImageMessage :: string where
  "noSelectedImageMessage =
     [CHR 0xEC, CHR 0x84, CHR 0xA0, CHR 0xED, CHR 0x83, CHR 0x9D, CHR 0xEB, CHR 0x90,
      CHR 0x9C, CHR 0x20, CHR 0xEC, CHR 0x9D, CHR 0xB4, CHR 0xEB, CHR 0xAF, CHR 0xB8,
      CHR 0xEC, CHR 0xA7, CHR 0x80, CHR 0xEA, CHR 0xB0, CHR 0x80, CHR 0x20, CHR 0xEC,
      CHR 0x97, CHR 0x86, CHR 0xEC, CHR 0x8A, CHR 0xB5, CHR 0xEB, CHR 0x8B, CHR 0x88,
      CHR 0xEB, CHR 0x8B, CHR 0xA4, CHR 0x2E]"

text \<open>"The image size cannot be read."\<close>

definition imageSizeMessage :: string where
  "imageSizeMessage =
     [CHR 0xEC, CHR 0x9D, CHR 0xB4, CHR 0xEB, CHR 0xAF, CHR 0xB8, CHR 0xEC, CHR 0xA7,
      CHR 0x80, CHR 0x20, CHR 0xED, CHR 0x81, CHR 0xAC, CHR 0xEA, CHR 0xB8, CHR 0xB0,
      CHR 0xEB, CHR 0xA5, CHR 0xBC, CHR 0x20, CHR 0xEB, CHR 0xB6, CHR 0x88, CHR 0xEB,
      CHR 0x9F, CHR 0xAC, CHR 0xEC, CHR 0x98, CHR 0xAC, CHR 0x20, CHR 0xEC, CHR 0x88,
      CHR 0x98, CHR 0x20, CHR 0xEC, CHR 0x97, CHR 0x86, CHR 0xEC, CHR 0x8A, CHR 0xB5,
      CHR 0xEB, CHR 0x8B, CHR 0x88, CHR 0xEB, CHR 0x8B, CHR 0xA4, CHR 0x2E]"

text \<open>"Creating the canvas context failed."\<close>

definition canvasContextMessage :: string where
  "canvasContextMessage =
     [CHR 0xEC, CHR 0xBA, CHR 0x94, CHR 0xEB, CHR 0xB2, CHR 0x84, CHR 0xEC, CHR 0x8A,
      CHR 0xA4, CHR 0x20, CHR 0xEC, CHR 0xBB, CHR 0xA8, CHR 0xED, CHR 0x85, CHR 0x8D,
      CHR 0xEC, CHR 0x8A, CHR 0xA4, CHR 0xED, CHR 0x8A, CHR 0xB8, CHR 0x20, CHR 0xEC,
      CHR 0x83, CHR 0x9D, CHR 0xEC, CHR 0x84, CHR 0xB1, CHR 0xEC, CHR 0x97, CHR 0x90,
      CHR 0x20, CHR 0xEC, CHR 0x8B, CHR 0xA4, CHR 0xED, CHR 0x8C, CHR 0xA8, CHR 0xED,
      CHR 0x96, CHR 0x88, CHR 0xEC, CHR 0x8A, CHR 0xB5, CHR 0xEB, CHR 0x8B, CHR 0x88,
      CHR 0xEB, CHR 0x8B, CHR 0xA4, CHR 0x2E]"

text \<open>"Please select an image first."\<close>

definition selectFirstMessage :: string where
  "selectFirstMessage =
     [CHR 0xEB, CHR 0xA8, CHR 0xBC, CHR 0xEC, CHR 0xA0, CHR 0x80, CHR 0x20, CHR 0xEC,
      CHR 0x9D, CHR 0xB4, CHR 0xEB, CHR 0xAF, CHR 0xB8, CHR 0xEC, CHR 0xA7, CHR 0x80,
      CHR 0xEB, CHR 0xA5, CHR 0xBC, CHR 0x20, CHR 0xEC, CHR 0x84, CHR 0xA0, CHR 0xED,
      CHR 0x83, CHR 0x9D, CHR 0xED, CHR 0x95, CHR 0xB4, CHR 0x20, CHR 0xEC, CHR 0xA3,
      CHR 0xBC, CHR 0xEC, CHR 0x84, CHR 0xB8, CHR 0xEC, CHR 0x9A, CHR 0x94, CHR 0x2E]"

text \<open>"The image cannot be saved because of a security restriction."\<close>

definition securityRestrictionMessage :: string where
  "securityRestrictionMessage =
     [CHR 0xEB, CHR 0xB3, CHR 0xB4, CHR 0xEC, CHR 0x95, CHR 0x88, CHR 0x20, CHR 0xEC,
      CHR 0xA0, CHR 0x9C, CHR 0xED, CHR 0x95, CHR 0x9C, CHR 0x20, CHR 0xEB, CHR 0x95,
      CHR 0x8C, CHR 0xEB, CHR 0xAC, CHR 0xB8, CHR 0xEC, CHR 0x97, CHR 0x90, CHR 0x20,
      CHR 0xEC, CHR 0x9D, CHR 0xB4, CHR 0xEB, CHR 0xAF, CHR 0xB8, CHR 0xEC, CHR 0xA7,
      CHR 0x80, CHR 0xEB, CHR 0xA5, CHR 0xBC, CHR 0x20, CHR 0xEC, CHR 0xA0, CHR 0x80,
      CHR 0xEC, CHR 0x9E, CHR 0xA5, CHR 0xED, CHR 0x95, CHR 0xA0, CHR 0x20, CHR 0xEC,
      CHR 0x88, CHR 0x98, CHR 0x20, CHR 0xEC, CHR 0x97, CHR 0x86, CHR 0xEC, CHR 0x8A,
      CHR 0xB5, CHR 0xEB, CHR 0x8B, CHR 0x88, CHR 0xEB, CHR 0x8B, CHR 0xA4, CHR 0x2E]"

text \<open>"Saving the image failed."\<close>

definition saveFailedMessage :: string where
  "saveFailedMessage =
     [CHR 0xEC, CHR 0x9D, CHR 0xB4, CHR 0xEB, CHR 0xAF, CHR 0xB8, CHR 0xEC, CHR 0xA7,
      CHR 0x80, CHR 0x20, CHR 0xEC, CHR 0xA0, CHR 0x80, CHR 0xEC, CHR 0x9E, CHR 0xA5,
      CHR 0xEC, CHR 0x97, CHR 0x90, CHR 0x20, CHR 0xEC, CHR 0x8B, CHR 0xA4, CHR 0xED,
      CHR 0x8C, CHR 0xA8, CHR 0xED, CHR 0x96, CHR 0x88, CHR 0xEC, CHR 0x8A, CHR 0xB5,
      CHR 0xEB, CHR 0x8B, CHR 0x88, CHR 0xEB, CHR 0x8B, CHR 0xA4, CHR 0x2E]"
section \<open>Settings bridge\<close>

text \<open>
  \<open>applySettings\<close> of the page-wide script, and of the selection script. Generating the
  texture draws from the random source; \<open>None\<close> is the run that never returns.
  \<^verbatim>\<open>
  const applySettings = (settings) => {
    currentSettings = normalizeSettings(settings);
    noisePattern = createNoisePattern(currentSettings.noiseType);
    refreshAllOverlays();
    if (selectedImage) {          // selection script only
      applyNoise(selectedImage);
    }
  };
  \<close>
\<close>

definition applySettings :: "host \<Rightarrow> page \<Rightarrow> jsval \<Rightarrow> page option" where
  "applySettings h s raw =
     (let cs = normalizeSettings (ecma h) raw
      in case createNoiseDataUrl h (noiseType cs) 128 (random s) of
           None \<Rightarrow> None
         | Some (pattern, rs) \<Rightarrow>
             Some (refreshAllOverlays
                     (s\<lparr>currentSettings := cs, noisePattern := pattern, random := rs\<rparr>)))"

definition applySettings_selection :: "host \<Rightarrow> page \<Rightarrow> jsval \<Rightarrow> page option" where
  "applySettings_selection h s raw =
     (let cs = normalizeSettings (ecma h) raw
      in case createNoisePattern h (noiseType cs) 128 (random s) of
           None \<Rightarrow> None
         | Some (pattern, rs) \<Rightarrow>
             (let s1 = refreshAllOverlays
                         (s\<lparr>currentSettings := cs, noisePattern := pattern, random := rs\<rparr>)
              in case selectedImage s1 of
                   None \<Rightarrow> Some s1
                 | Some img \<Rightarrow> Some (applyNoise_selection s1 img)))"

text \<open>
  A storage change event: for each changed key the old and the new value (\<open>undefined\<close>
  when the key was absent), and the name of the storage area.
\<close>

record storageChange =
  oldValue :: jsval
  newValue :: jsval

text \<open>
  The listener of \<open>listenForStorageChanges\<close>, up to its last statement: the updated
  settings and the flag \<open>hasChanges\<close>.
  \<^verbatim>\<open>
      const updated = { ...currentSettings };
      let hasChanges = false;
      if (changes.noiseType && SUPPORTED_NOISE_TYPES.has(changes.noiseType.newValue)) {
        updated.noiseType = changes.noiseType.newValue;
        hasChanges = true;
      }
      if (changes.intensity && typeof changes.intensity.newValue !== 'undefined') {
        const candidate = Number(changes.intensity.newValue);
        if (!Number.isNaN(candidate)) {
          updated.intensity = clamp(candidate, 0.5, 100);
          hasChanges = true;
        }
      }
  \<close>
\<close>

definition changedSettings ::
  "builtins \<Rightarrow> settings \<Rightarrow> (string \<times> storageChange) list \<Rightarrow> settings \<times> bool" where
  "changedSettings b cur changes =
     (let step1 =
            (case map_of changes ''noiseType'' of
               None \<Rightarrow> (cur, False)
             | Some c \<Rightarrow>
                 (case supported (newValue c) of
                    Some t \<Rightarrow> (cur\<lparr>noiseType := t\<rparr>, True)
                  | None \<Rightarrow> (cur, False)))
      in case map_of changes ''intensity'' of
           None \<Rightarrow> step1
         | Some c \<Rightarrow>
             if newValue c \<noteq> JUndefined
             then (let candidate = Number_of b (newValue c)
                   in if candidate \<noteq> NaN
                      then ((fst step1)\<lparr>intensity := clamp candidate (Fin (1/2)) (Fin 100)\<rparr>, True)
                      else step1)
             else step1)"

text \<open>
  \<^verbatim>\<open>
    chrome.storage.onChanged.addListener((changes, areaName) => {
      if (areaName !== 'local') {
        return;
      }
      ...
      if (hasChanges) {
        applySettings(updated);
      }
    });
  \<close>
\<close>

definition onStorageChanged ::
  "host \<Rightarrow> page \<Rightarrow> (string \<times> storageChange) list \<Rightarrow> string \<Rightarrow> page option" where
  "onStorageChanged h s changes areaName =
     (if areaName \<noteq> ''local'' then Some s
      else (case changedSettings (ecma h) (currentSettings s) changes of
              (updated, hasChanges) \<Rightarrow>
                if hasChanges then applySettings h s (settingsObject updated) else Some s))"

definition onStorageChanged_selection ::
  "host \<Rightarrow> page \<Rightarrow> (string \<times> storageChange) list \<Rightarrow> string \<Rightarrow> page option" where
  "onStorageChanged_selection h s changes areaName =
     (if areaName \<noteq> ''local'' then Some s
      else (case changedSettings (ecma h) (currentSettings s) changes of
              (updated, hasChanges) \<Rightarrow>
                if hasChanges then applySettings_selection h s (settingsObject updated)
                else Some s))"

section \<open>Export\<close>

text \<open>Sum and product of two numbers, with the special values.\<close>

fun jsPlus :: "jsnum \<Rightarrow> jsnum \<Rightarrow> jsnum" where
  "jsPlus NaN b = NaN"
| "jsPlus a NaN = NaN"
| "jsPlus PosInf NegInf = NaN"
| "jsPlus NegInf PosInf = NaN"
| "jsPlus PosInf b = PosInf"
| "jsPlus a PosInf = PosInf"
| "jsPlus NegInf b = NegInf"
| "jsPlus a NegInf = NegInf"
| "jsPlus (Fin x) (Fin y) = Fin (x + y)"

fun jsTimes :: "jsnum \<Rightarrow> jsnum \<Rightarrow> jsnum" where
  "jsTimes NaN b = NaN"
| "jsTimes a NaN = NaN"
| "jsTimes (Fin x) (Fin y) = Fin (x * y)"
| "jsTimes (Fin x) PosInf = (if x = 0 then NaN else if 0 < x then PosInf else NegInf)"
| "jsTimes (Fin x) NegInf = (if x = 0 then NaN else if 0 < x then NegInf else PosInf)"
| "jsTimes PosInf (Fin y) = (if y = 0 then NaN else if 0 < y then PosInf else NegInf)"
| "jsTimes NegInf (Fin y) = (if y = 0 then NaN else if 0 < y then NegInf else PosInf)"
| "jsTimes PosInf PosInf = PosInf"
| "jsTimes NegInf NegInf = PosInf"
| "jsTimes PosInf NegInf = NegInf"
| "jsTimes NegInf PosInf = NegInf"

text \<open>
  \<^verbatim>\<open>
  const noiseDelta = (type, intensity) => {
    const factor = clamp(intensity / 100, 0.005, 1) * 128;
    if (type === 'gaussian') {
      return (randomGaussianUnit() - 0.5) * 2 * factor;
    }
    return (Math.random() - 0.5) * 2 * factor;
  };
  \<close>
  The products are exact here and rounded to doubles in the code: a delta can differ in
  its last binary digit, which moves a channel by one where the sum falls on a tie of
  the rounding to an integer. Only the pixels of a successful export depend on it.
\<close>

definition noiseDelta :: "string \<Rightarrow> jsnum \<Rightarrow> real stream \<Rightarrow> (jsnum \<times> real stream) option" where
  "noiseDelta t i rs =
     (let factor = jsMul (clamp (jsDiv i 100) (Fin (1/200)) (Fin 1)) 128
      in if t = ''gaussian''
         then (case randomGaussianUnit rs of
                 None \<Rightarrow> None
               | Some (g, rs1) \<Rightarrow>
                   Some (jsTimes (jsMul (jsPlus g (Fin (- 1/2))) 2) factor, rs1))
         else Some (jsTimes (jsMul (jsPlus (Fin (shd rs)) (Fin (- 1/2))) 2) factor, stl rs))"

text \<open>
  The pixel loop of the export: one delta per pixel, added to the three colour channels
  and clamped, the alpha channel untouched. The data is a \<open>Uint8ClampedArray\<close>.
  \<^verbatim>\<open>
          for (let i = 0; i < data.length; i += 4) {
            const delta = noiseDelta(noiseType, intensity);
            data[i] = clamp(data[i] + delta, 0, 255);
            data[i + 1] = clamp(data[i + 1] + delta, 0, 255);
            data[i + 2] = clamp(data[i + 2] + delta, 0, 255);
          }
  \<close>
\<close>

definition channel :: "nat \<Rightarrow> jsnum \<Rightarrow> nat" where
  "channel c delta = ToUint8Clamp (clamp (jsPlus (Fin (real c)) delta) (Fin 0) (Fin 255))"

fun noiseLoop ::
  "string \<Rightarrow> jsnum \<Rightarrow> nat list \<Rightarrow> real stream \<Rightarrow> (nat list \<times> real stream) option" where
  "noiseLoop t i (r # g # b # a # data) rs =
     (case noiseDelta t i rs of
        None \<Rightarrow> None
      | Some (delta, rs1) \<Rightarrow>
          (case noiseLoop t i data rs1 of
             None \<Rightarrow> None
           | Some (data1, rs2) \<Rightarrow>
               Some (channel r delta # channel g delta # channel b delta # a # data1, rs2)))"
| "noiseLoop t i data rs = Some (data, rs)"

text \<open>The promise that \<open>generateNoisyDataUrl\<close> returns: settled, or waiting for the image.\<close>

datatype promise = Resolved string | Rejected jsError | Pending

text \<open>
  \<^verbatim>\<open>
      const finalize = () => {
        try {
          ctx.drawImage(image, 0, 0, width, height);
          const imageData = ctx.getImageData(0, 0, width, height);
          const { data } = imageData;
          const { noiseType, intensity } = settings;
          for (...) { ... }
          ctx.putImageData(imageData, 0, 0);
          resolve(canvas.toDataURL('image/png'));
        } catch (error) {
          reject(error);
        }
      };
  \<close>
  Drawing the image and reading its pixels back is the host's \<open>readPixels\<close>: the pixel
  data, or the error that \<open>drawImage\<close> or \<open>getImageData\<close> throws.
\<close>

definition finalize ::
  "host \<Rightarrow> page \<Rightarrow> nat \<Rightarrow> settings \<Rightarrow> nat \<Rightarrow> nat \<Rightarrow> (promise \<times> page) option" where
  "finalize h s img st width height =
     (case readPixels h img of
        Inl err \<Rightarrow> Some (Rejected err, s)
      | Inr data \<Rightarrow>
          (case noiseLoop (noiseType st) (intensity st) data (random s) of
             None \<Rightarrow> None
           | Some (data1, rs) \<Rightarrow>
               Some (Resolved (toDataURL h width height data1), s\<lparr>random := rs\<rparr>)))"

text \<open>
  \<^verbatim>\<open>
  const generateNoisyDataUrl = (image, settings) =>
    new Promise((resolve, reject) => {
      if (!image) {
        reject(new Error(...no selected image...));
        return;
      }
      const width = image.naturalWidth;
      const height = image.naturalHeight;
      if (!width || !height) {
        reject(new Error(...image size...));
        return;
      }
      const canvas = document.createElement('canvas');
      const ctx = canvas.getContext('2d', { willReadFrequently: true });
      if (!ctx) {
        reject(new Error(...canvas context...));
        return;
      }
      canvas.width = width;
      canvas.height = height;
      const finalize = () => { ... };
      if (image.complete && image.naturalWidth > 0) {
        finalize();
      } else {
        const onLoad = () => {
          image.removeEventListener('load', onLoad);
          finalize();
        };
        image.addEventListener('load', onLoad);
      }
    });
  \<close>
  The image is \<open>None\<close> for \<open>null\<close>.
\<close>

definition generateNoisyDataUrl ::
  "host \<Rightarrow> page \<Rightarrow> nat option \<Rightarrow> settings \<Rightarrow> (promise \<times> page) option" where
  "generateNoisyDataUrl h s target st =
     (case (case target of None \<Rightarrow> None | Some img \<Rightarrow> map_option (Pair img) (lookup img (document s))) of
        None \<Rightarrow> Some (Rejected (Error noSelectedImageMessage), s)
      | Some (img, e) \<Rightarrow>
          (let width = naturalWidth (eprops e); height = naturalHeight (eprops e)
           in if width = 0 \<or> height = 0
              then Some (Rejected (Error imageSizeMessage), s)
              else if \<not> canvasContext h
              then Some (Rejected (Error canvasContextMessage), s)
              else if isComplete (eprops e) \<and> 0 < naturalWidth (eprops e)
              then finalize h s img st width height
              else Some (Pending,
                     s\<lparr>document := addLoadListener img (ExportOnLoad st width height) (document s)\<rparr>)))"

text \<open>
  The test \<^verbatim>\<open>/tainted|cross-origin|security/i.test(error.message || '')\<close>: one of the
  three words occurs in the message, in any case of its letters.
\<close>

definition asciiLower :: "char \<Rightarrow> char" where
  "asciiLower c =
     (case map_of (zip ''ABCDEFGHIJKLMNOPQRSTUVWXYZ'' ''abcdefghijklmnopqrstuvwxyz'') c of
        Some l \<Rightarrow> l
      | None \<Rightarrow> c)"

fun startsWith :: "string \<Rightarrow> string \<Rightarrow> bool" where
  "startsWith [] s = True"
| "startsWith (p # ps) [] = False"
| "startsWith (p # ps) (c # cs) = (p = c \<and> startsWith ps cs)"

fun containsText :: "string \<Rightarrow> string \<Rightarrow> bool" where
  "containsText pat [] = (pat = [])"
| "containsText pat (c # cs) = (startsWith pat (c # cs) \<or> containsText pat cs)"

definition isSecurityError :: "jsError \<Rightarrow> bool" where
  "isSecurityError err =
     (let m = map asciiLower (message err)
      in containsText ''tainted'' m \<or> containsText ''cross-origin'' m
         \<or> containsText ''security'' m)"

text \<open>
  The two reactions of the request handler to the settled promise.
  \<^verbatim>\<open>
            .then((dataUrl) => {
              sendResponse({ ok: true, dataUrl, fileName: `noisy-image-${Date.now()}.png` });
            })
            .catch((error) => {
              const isSecurityError = error && /tainted|cross-origin|security/i.test(error.message || '');
              sendResponse({
                ok: false,
                error: isSecurityError
                  ? ...security restriction...
                  : error.message || ...save failed...,
              });
            });
  \<close>
  \<open>RData url t\<close> is the response with the data URL and the file name made from the
  time \<open>t\<close>.
\<close>

definition settled :: "host \<Rightarrow> page \<Rightarrow> promise \<Rightarrow> page" where
  "settled h s pr =
     (case pr of
        Resolved dataUrl \<Rightarrow> s\<lparr>outbox := outbox s @ [Response (RData dataUrl (now h))]\<rparr>
      | Rejected err \<Rightarrow>
          s\<lparr>outbox := outbox s @
             [Response (RFail (if isSecurityError err then securityRestrictionMessage
                               else if message err \<noteq> [] then message err
                               else saveFailedMessage))]\<rparr>
      | Pending \<Rightarrow> s)"

text \<open>
  The request \<open>ANI_GENERATE_NOISY_IMAGE\<close> with its payload (\<open>undefined\<close> when absent).
  \<^verbatim>\<open>
        case 'ANI_GENERATE_NOISY_IMAGE': {
          if (!selectedImage) {
            sendResponse({ ok: false, error: ...select first... });
            return true;
          }
          const settings = normalizeSettings(message.payload ?? currentSettings);
          generateNoisyDataUrl(selectedImage, settings)
            .then(...)
            .catch(...);
          return true;
        }
  \<close>
\<close>

definition onGenerateNoisyImage :: "host \<Rightarrow> page \<Rightarrow> jsval \<Rightarrow> page option" where
  "onGenerateNoisyImage h s payload =
     (case selectedImage s of
        None \<Rightarrow> Some (s\<lparr>outbox := outbox s @ [Response (RFail selectFirstMessage)]\<rparr>)
      | Some img \<Rightarrow>
          (let st = normalizeSettings (ecma h)
                      (if payload = JUndefined \<or> payload = JNull
                       then settingsObject (currentSettings s) else payload)
           in case generateNoisyDataUrl h s (Some img) st of
                None \<Rightarrow> None
              | Some (pr, s1) \<Rightarrow> Some (settled h s1 pr)))"

text \<open>
  The \<open>load\<close> event of an image: the browser has the image complete with its natural
  size, and the listeners registered on it run once, in the order of registration.
\<close>

definition runListener :: "host \<Rightarrow> nat \<Rightarrow> listener \<Rightarrow> page \<Rightarrow> page option" where
  "runListener h img l s =
     (case l of
        DoApply \<Rightarrow> Some (doApply s img)
      | DoApplySelection \<Rightarrow> Some (doApply_selection s img)
      | ExportOnLoad st width height \<Rightarrow>
          (case finalize h s img st width height of
             None \<Rightarrow> None
           | Some (pr, s1) \<Rightarrow> Some (settled h s1 pr)))"

fun runListeners :: "host \<Rightarrow> nat \<Rightarrow> listener list \<Rightarrow> page \<Rightarrow> page option" where
  "runListeners h img [] s = Some s"
| "runListeners h img (l # ls) s =
     (case runListener h img l s of
        None \<Rightarrow> None
      | Some s1 \<Rightarrow> runListeners h img ls s1)"

definition imageLoaded :: "host \<Rightarrow> page \<Rightarrow> nat \<Rightarrow> nat \<Rightarrow> nat \<Rightarrow> page option" where
  "imageLoaded h s img width height =
     (case lookup img (document s) of
        None \<Rightarrow> Some s
      | Some e \<Rightarrow>
          runListeners h img (loadListeners (eprops e))
            (s\<lparr>document := map (updateProps img
                   (\<lambda>p. p\<lparr>isComplete := True, naturalWidth := width,
                            naturalHeight := height, loadListeners := []\<rparr>)) (document s)\<rparr>))"

section \<open>Auxiliary notions for the proofs\<close>

text \<open>The effect on one node of writing properties of the node \<open>j\<close>.\<close>

definition onNode :: "nat \<Rightarrow> (props \<Rightarrow> props) \<Rightarrow> nat \<times> props \<Rightarrow> nat \<times> props" where
  "onNode j g kp = (fst kp, if fst kp = j then g (snd kp) else snd kp)"

section \<open>An example page\<close>

text \<open>
  A host whose canvas refuses to give pixels of a cross-origin image, with the message
  of the browser's \<open>SecurityError\<close>, and a document with two loaded images in its body.
\<close>

definition exampleHost :: host where
  "exampleHost =
     \<lparr>ecma = \<lparr>StringToNumber = (\<lambda>s. NaN), ObjectToString = (\<lambda>v. ''[object Object]'')\<rparr>,
      canvasContext = True,
      toDataURL = (\<lambda>width height data. ''data:image/png;base64,'' ),
      runtimeSendMessage = Delivers,
      readPixels = (\<lambda>img. Inl (Error ''The canvas has been tainted by cross-origin data.'')),
      now = 0\<rparr>"

definition exampleImage :: "nat \<Rightarrow> elem" where
  "exampleImage i =
     Elem i ((createElement ''img'')\<lparr>isComplete := True, naturalWidth := 640,
               naturalHeight := 480\<rparr>) []"

definition exampleDocument :: "elem list" where
  "exampleDocument =
     [Elem 0 ((createElement ''#document'')\<lparr>nodeType := DOCUMENT_NODE\<rparr>)
        [Elem 1 (createElement ''body'') [exampleImage 2, exampleImage 3]]]"

definition examplePage :: page where
  "examplePage =
     \<lparr>document = exampleDocument, currentSettings = DEFAULT_SETTINGS,
      noisePattern = ''data:image/png;base64,'', selectedImage = None,
      random = sconst (1/2), outbox = []\<rparr>"

text \<open>A storage change event: the noise type becomes an unsupported kind and the intensity is removed.\<close>

definition exampleChanges :: "(string \<times> storageChange) list" where
  "exampleChanges =
     [(''noiseType'', \<lparr>oldValue = JString ''uniform'', newValue = JString ''perlin''\<rparr>),
      (''intensity'', \<lparr>oldValue = JNumber (Fin 20), newValue = JUndefined\<rparr>)]"

text \<open>The example page with the first image selected; a page whose selected image has no size.\<close>

definition exampleSelectedPage :: page where
  "exampleSelectedPage = examplePage\<lparr>selectedImage := Some 2\<rparr>"

definition exampleBrokenImage :: elem where
  "exampleBrokenImage = Elem 2 ((createElement ''img'')\<lparr>isComplete := True\<rparr>) []"

definition exampleBrokenPage :: page where
  "exampleBrokenPage =
     examplePage\<lparr>document :=
        [Elem 0 ((createElement ''#document'')\<lparr>nodeType := DOCUMENT_NODE\<rparr>)
           [Elem 1 (createElement ''body'') [exampleBrokenImage]]],
       selectedImage := Some 2\<rparr>"

text \<open>
  A function applied to the properties of every node of a tree; and the two views of a
  node that the frame of \<open>refreshAllOverlays\<close> is stated with: the node without the
  background and opacity of an overlay, and the node without the background of an
  overlay only.
\<close>

fun mapProps :: "(nat \<Rightarrow> props \<Rightarrow> props) \<Rightarrow> elem \<Rightarrow> elem" where
  "mapProps f (Elem j p ks) = Elem j (f j p) (map (mapProps f) ks)"

definition forgetOverlayStyle :: "nat \<Rightarrow> props \<Rightarrow> props" where
  "forgetOverlayStyle j p =
     (if matches NOISE_OVERLAY_CLASS (j, p) then p\<lparr>backgroundImage := [], opacity := []\<rparr>
      else p)"

definition forgetOverlayBackground :: "nat \<Rightarrow> props \<Rightarrow> props" where
  "forgetOverlayBackground j p =
     (if matches NOISE_OVERLAY_CLASS (j, p) then p\<lparr>backgroundImage := []\<rparr> else p)"

text \<open>
  The example page after its first image got an overlay under earlier settings
  (an old texture, opacity 0.5).
\<close>

definition exampleOverlayPage :: page where
  "exampleOverlayPage =
     examplePage\<lparr>document :=
       [Elem 0 ((createElement ''#document'')\<lparr>nodeType := DOCUMENT_NODE\<rparr>)
          [Elem 1 (createElement ''body'')
             [Elem 4 ((createElement ''span'')\<lparr>classList := [NOISE_WRAPPER_CLASS]\<rparr>)
                [Elem 2 ((createElement ''img'')\<lparr>attributes := [(NOISE_APPLIED_ATTR, ''true'')],
                           isComplete := True, naturalWidth := 640, naturalHeight := 480\<rparr>) [],
                 Elem 5 ((createElement ''span'')\<lparr>classList := [NOISE_OVERLAY_CLASS],
                           backgroundImage := ''url(data:image/png;base64,OLD)'',
                           opacity := ''0.5''\<rparr>) []],
              exampleImage 3]]]\<rparr>"

text \<open>A path that keeps its head and its elements and grows by the node \<open>x\<close> at most.\<close>

definition pathGrows :: "nat \<times> props \<Rightarrow> (nat \<times> props) list \<Rightarrow> (nat \<times> props) list \<Rightarrow> bool" where
  "pathGrows x path path' \<longleftrightarrow>
     hd path' = hd path \<and> length path \<le> length path' \<and> set path' \<subseteq> set path \<union> {x}"

text \<open>
  A write to the properties of a node that keeps the node's type and its membership in
  the class \<open>c\<close>; the number of overlays inside a node; the number of overlays on the page.
\<close>

definition keepsClass :: "string \<Rightarrow> (props \<Rightarrow> props) \<Rightarrow> bool" where
  "keepsClass c g \<longleftrightarrow>
     (\<forall>p. nodeType (g p) = nodeType p \<and> (c \<in> set (classList (g p))) = (c \<in> set (classList p)))"

definition overlaysIn :: "nat \<Rightarrow> elem list \<Rightarrow> nat" where
  "overlaysIn w ts =
     (case lookup w ts of
        None \<Rightarrow> 0
      | Some e \<Rightarrow> length (filter (matches NOISE_OVERLAY_CLASS) (nodes (kids e))))"

definition overlaysOnPage :: "elem list \<Rightarrow> nat" where
  "overlaysOnPage ts = length (filter (matches NOISE_OVERLAY_CLASS) (nodes ts))"

text \<open>
  The overlays in the scope of an image: inside its nearest wrapper when it has one,
  in the image's own subtree otherwise. A loaded element; a node that has a parent or
  a wrapper. The second half of \<open>doApply\<close>, after the wrapper is there.
\<close>

definition scopeOverlays :: "nat \<Rightarrow> elem list \<Rightarrow> nat" where
  "scopeOverlays i ts =
     (case closest NOISE_WRAPPER_CLASS i ts of
        Some w \<Rightarrow> overlaysIn w ts
      | None \<Rightarrow>
          (case lookup i ts of
             None \<Rightarrow> 0
           | Some e \<Rightarrow> length (filter (matches NOISE_OVERLAY_CLASS) (nodesT e))))"

definition loadedElement :: "nat \<Rightarrow> elem list \<Rightarrow> bool" where
  "loadedElement i ts =
     (case lookup i ts of
        None \<Rightarrow> False
      | Some e \<Rightarrow> nodeType (eprops e) = ELEMENT_NODE \<and> isComplete (eprops e)
                  \<and> 0 < naturalWidth (eprops e))"

definition attached :: "nat \<Rightarrow> elem list \<Rightarrow> bool" where
  "attached i ts \<longleftrightarrow> parentNode i ts \<noteq> None \<or> closest NOISE_WRAPPER_CLASS i ts \<noteq> None"

definition ensureOverlay :: "bool \<Rightarrow> page \<Rightarrow> nat \<Rightarrow> nat \<Rightarrow> elem list \<Rightarrow> elem list" where
  "ensureOverlay restyle s i w ts =
     setAttribute i NOISE_APPLIED_ATTR ''true''
       (case querySelector NOISE_OVERLAY_CLASS w ts of
          Some existing \<Rightarrow>
            if restyle then map (updateProps existing (overlayStyle s)) ts else ts
        | None \<Rightarrow> map (appendChild w (Elem (freshId ts) (createOverlay s) [])) ts)"

text \<open>
  The example page with its first image marked processed although nothing was overlaid
  on it (the page's own markup may carry the attribute).
\<close>

definition exampleMarkedPage :: page where
  "exampleMarkedPage =
     examplePage\<lparr>document :=
       [Elem 0 ((createElement ''#document'')\<lparr>nodeType := DOCUMENT_NODE\<rparr>)
          [Elem 1 (createElement ''body'')
             [Elem 2 ((createElement ''img'')\<lparr>attributes := [(NOISE_APPLIED_ATTR, ''true'')],
                        isComplete := True, naturalWidth := 640, naturalHeight := 480\<rparr>) [],
              exampleImage 3]]]\<rparr>"

text \<open>The properties of the node \<open>j\<close> of the page, when there is one.\<close>

definition nodeProps :: "nat \<Rightarrow> elem list \<Rightarrow> props option" where
  "nodeProps j ts = map_option eprops (lookup j ts)"

text \<open>
  A host whose canvas refuses the pixels of a cross-origin image with the message that
  another browser gives to its \<open>SecurityError\<close>.
\<close>

definition exampleInsecureHost :: host where
  "exampleInsecureHost =
     exampleHost\<lparr>readPixels := (\<lambda>img. Inl (Error ''The operation is insecure.''))\<rparr>"

text \<open>
  A node that is an element; the listeners waiting for the \<open>load\<close> event of a node; the
  listeners that apply noise (the others export). \<open>doApply\<close> of either script: they
  differ only in whether an overlay that is found gets the current settings again.
\<close>

definition elementNode :: "nat \<Rightarrow> elem list \<Rightarrow> bool" where
  "elementNode i ts =
     (case lookup i ts of None \<Rightarrow> False | Some e \<Rightarrow> nodeType (eprops e) = ELEMENT_NODE)"

definition pendingListeners :: "nat \<Rightarrow> elem list \<Rightarrow> listener list" where
  "pendingListeners i ts =
     (case lookup i ts of None \<Rightarrow> [] | Some e \<Rightarrow> loadListeners (eprops e))"

fun isApplier :: "listener \<Rightarrow> bool" where
  "isApplier DoApply = True"
| "isApplier DoApplySelection = True"
| "isApplier (ExportOnLoad st width height) = False"

definition doApplyWith :: "bool \<Rightarrow> page \<Rightarrow> nat \<Rightarrow> page" where
  "doApplyWith restyle s i =
     (case ensureWrapper (document s) i of
        (None, ts) \<Rightarrow> s
      | (Some w, ts) \<Rightarrow> s\<lparr>document := ensureOverlay restyle s i w ts\<rparr>)"

text \<open>
  The state of an image that noise was applied to, on a page where its scope held \<open>k\<close>
  overlays before: it is inside a wrapper, marked processed, and its wrapper holds one
  overlay, or the \<open>k\<close> overlays that were there when there were several.
\<close>

definition overlaid :: "nat \<Rightarrow> nat \<Rightarrow> elem list \<Rightarrow> bool" where
  "overlaid i k ts \<longleftrightarrow>
     closest NOISE_WRAPPER_CLASS i ts \<noteq> None
     \<and> scopeOverlays i ts = max 1 k
     \<and> getAttribute i NOISE_APPLIED_ATTR ts = Some ''true''"

text \<open>
  Three more example pages: the first image is still loading; a loaded image (7) that
  is in no document, without parent; the first image inside a wrapper that already
  holds two overlays.
\<close>

definition exampleLoadingPage :: page where
  "exampleLoadingPage =
     examplePage\<lparr>document :=
       [Elem 0 ((createElement ''#document'')\<lparr>nodeType := DOCUMENT_NODE\<rparr>)
          [Elem 1 (createElement ''body'')
             [Elem 2 (createElement ''img'') [], exampleImage 3]]]\<rparr>"

definition exampleDetachedPage :: page where
  "exampleDetachedPage = examplePage\<lparr>document := exampleDocument @ [exampleImage 7]\<rparr>"

definition exampleCrowdedPage :: page where
  "exampleCrowdedPage =
     examplePage\<lparr>document :=
       [Elem 0 ((createElement ''#document'')\<lparr>nodeType := DOCUMENT_NODE\<rparr>)
          [Elem 1 (createElement ''body'')
             [Elem 4 ((createElement ''span'')\<lparr>classList := [NOISE_WRAPPER_CLASS]\<rparr>)
                [exampleImage 2,
                 Elem 5 ((createElement ''span'')\<lparr>classList := [NOISE_OVERLAY_CLASS]\<rparr>) [],
                 Elem 6 ((createElement ''span'')\<lparr>classList := [NOISE_OVERLAY_CLASS]\<rparr>) []],
              exampleImage 3]]]\<rparr>"

section \<open>Facts about numbers\<close>

lemma fracDigits_numeral:
  "fracDigits (numeral k) r =
     (if r = 0 then []
      else (let d = nat \<lfloor>r * 10\<rfloor>
            in digitChar d # fracDigits (pred_numeral k) (r * 10 - real d)))"
  by (simp add: numeral_eq_Suc)

lemma clamp_cases:
  "lo \<le> hi \<Longrightarrow> clamp v (Fin lo) (Fin hi) =
     (case v of NaN \<Rightarrow> NaN | NegInf \<Rightarrow> Fin lo | Fin x \<Rightarrow> Fin (min (max x lo) hi)
      | PosInf \<Rightarrow> Fin hi)"
  by (cases v) (simp_all add: clamp_def)

lemma clamp_bounds:
  "lo \<le> hi \<Longrightarrow> v \<noteq> NaN \<Longrightarrow>
     jsLe (Fin lo) (clamp v (Fin lo) (Fin hi)) \<and> jsLe (clamp v (Fin lo) (Fin hi)) (Fin hi)"
  by (cases v) (simp_all add: clamp_def)

lemma clamp_mono:
  "lo \<le> hi \<Longrightarrow> jsLe v w \<Longrightarrow> jsLe (clamp v (Fin lo) (Fin hi)) (clamp w (Fin lo) (Fin hi))"
  by (cases v; cases w) (auto simp: clamp_def)

lemma jsDiv_mono: "0 < d \<Longrightarrow> jsLe v w \<Longrightarrow> jsLe (jsDiv v d) (jsDiv w d)"
  by (cases v; cases w) (auto simp: divide_right_mono)

lemma jsDiv_NaN [simp]: "jsDiv v d = NaN \<longleftrightarrow> v = NaN"
  by (cases v) simp_all

section \<open>Normalising settings\<close>

text \<open>
  C2. \<open>normalizeSettings\<close> decides on \<open>Number(settings?.intensity)\<close>: when that is a
  number (not NaN) the result's intensity is that number clamped into \<open>[0.5, 100]\<close> (a
  value inside the range is kept, one below becomes 0.5, one above becomes 100, the
  infinities included), and when it is NaN the default intensity 20 is kept. The
  result's intensity is therefore a finite number between 0.5 and 100 on every input.
\<close>

theorem normalizeSettings_intensity:
  "intensity (normalizeSettings b raw) =
     (case Number_of b (optProp raw ''intensity'') of
        NaN \<Rightarrow> Fin 20
      | NegInf \<Rightarrow> Fin (1/2)
      | Fin x \<Rightarrow> Fin (if x < 1/2 then 1/2 else if 100 < x then 100 else x)
      | PosInf \<Rightarrow> Fin 100)
   \<and> jsLe (Fin (1/2)) (intensity (normalizeSettings b raw))
   \<and> jsLe (intensity (normalizeSettings b raw)) (Fin 100)"
  by (cases "Number_of b (optProp raw ''intensity'')")
    (auto simp: normalizeSettings_def DEFAULT_SETTINGS_def Let_def clamp_def
      split: option.splits)


lemma nonZeroDraw_zero: "nonZeroDraw (0 ## rs) = nonZeroDraw rs"
  by (subst nonZeroDraw.simps) simp





section \<open>Overlay opacity\<close>

text \<open>
  C3. \<open>overlayOpacityFromIntensity\<close> renders \<open>clamp(intensity / 100, 0.005, 1)\<close>. For
  every intensity that is a number (not NaN) that value is at least 0.005 and at most 1,
  and it is monotonically non-decreasing: \<open>i <= j\<close> gives \<open>opacity i <= opacity j\<close>.
  Intensity 20 yields \<open>"0.2"\<close>, intensity 0.5 yields \<open>"0.005"\<close>, and intensity 150 is
  normalised to 100, which yields \<open>"1"\<close>.
\<close>

theorem overlayOpacity_clamp_monotone:
  "overlayOpacityFromIntensity i = Number_toString (clamp (jsDiv i 100) (Fin (1/200)) (Fin 1))
   \<and> (i \<noteq> NaN \<longrightarrow>
        jsLe (Fin (1/200)) (clamp (jsDiv i 100) (Fin (1/200)) (Fin 1))
      \<and> jsLe (clamp (jsDiv i 100) (Fin (1/200)) (Fin 1)) (Fin 1))
   \<and> (jsLe i j \<longrightarrow>
        jsLe (clamp (jsDiv i 100) (Fin (1/200)) (Fin 1))
             (clamp (jsDiv j 100) (Fin (1/200)) (Fin 1)))
   \<and> overlayOpacityFromIntensity (Fin 20) = ''0.2''
   \<and> overlayOpacityFromIntensity (Fin (1/2)) = ''0.005''
   \<and> intensity (normalizeSettings b (JObject [(''intensity'', JNumber (Fin 150))])) = Fin 100
   \<and> overlayOpacityFromIntensity (Fin 100) = ''1''"
proof -
  have bounds: "i \<noteq> NaN \<longrightarrow>
        jsLe (Fin (1/200)) (clamp (jsDiv i 100) (Fin (1/200)) (Fin 1))
      \<and> jsLe (clamp (jsDiv i 100) (Fin (1/200)) (Fin 1)) (Fin 1)"
    using clamp_bounds [of "1/200" 1 "jsDiv i 100"] by simp
  have mono: "jsLe i j \<longrightarrow>
        jsLe (clamp (jsDiv i 100) (Fin (1/200)) (Fin 1))
             (clamp (jsDiv j 100) (Fin (1/200)) (Fin 1))"
    using clamp_mono [of "1/200" 1 "jsDiv i 100" "jsDiv j 100"] jsDiv_mono [of 100 i j]
    by simp
  have e1: "overlayOpacityFromIntensity (Fin 20) = ''0.2''"
    by (simp add: overlayOpacityFromIntensity_def clamp_def decimalString_def
        fractionDigits_def fracDigits_numeral digitChar_def frac_def)
  have e2: "overlayOpacityFromIntensity (Fin (1/2)) = ''0.005''"
    by (simp add: overlayOpacityFromIntensity_def clamp_def decimalString_def
        fractionDigits_def fracDigits_numeral digitChar_def frac_def)
  have e3: "intensity (normalizeSettings b (JObject [(''intensity'', JNumber (Fin 150))])) = Fin 100"
    by (simp add: normalizeSettings_def optProp_def clamp_def DEFAULT_SETTINGS_def)
  have e4: "overlayOpacityFromIntensity (Fin 100) = ''1''"
    by (simp add: overlayOpacityFromIntensity_def clamp_def decimalString_def
        fractionDigits_def fracDigits_numeral digitChar_def frac_def)
  show ?thesis
    using bounds mono e1 e2 e3 e4 by (simp add: overlayOpacityFromIntensity_def)
qed

theorem overlayOpacity_clamp_monotone_witness:
  "Fin 20 \<noteq> NaN
   \<and> jsLe (Fin (1/200)) (clamp (jsDiv (Fin 20) 100) (Fin (1/200)) (Fin 1))
   \<and> jsLe (clamp (jsDiv (Fin 20) 100) (Fin (1/200)) (Fin 1)) (Fin 1)
   \<and> jsLe (Fin 20) (Fin 150)
   \<and> jsLe (clamp (jsDiv (Fin 20) 100) (Fin (1/200)) (Fin 1))
           (clamp (jsDiv (Fin 150) 100) (Fin (1/200)) (Fin 1))
   \<and> clamp (jsDiv (Fin 20) 100) (Fin (1/200)) (Fin 1) = Fin (1/5)
   \<and> clamp (jsDiv (Fin 150) 100) (Fin (1/200)) (Fin 1) = Fin 1"
  using overlayOpacity_clamp_monotone [of "Fin 20" "Fin 150"]
  by (simp add: clamp_def)

section \<open>Gaussian noise\<close>








section \<open>Facts about the document\<close>

lemma firstSome_map_option:
  "firstSome (map (\<lambda>x. map_option g (f x)) xs) = map_option g (firstSome (map f xs))"
  by (induction xs) (auto split: option.splits, (case_tac "f a"; simp)+)

lemma firstSome_None_iff: "firstSome xs = None \<longleftrightarrow> (\<forall>x\<in>set xs. x = None)"
  by (induction xs rule: firstSome.induct) auto

lemma firstSome_SomeD: "firstSome xs = Some y \<Longrightarrow> Some y \<in> set xs"
  by (induction xs rule: firstSome.induct) auto

lemma firstSome_map_SomeD:
  "firstSome (map f xs) = Some y \<Longrightarrow> \<exists>x\<in>set xs. f x = Some y"
  by (induction xs) (auto split: option.splits, (case_tac "f a"; simp)+)

lemma firstSome_append_None: "firstSome (xs @ [None]) = firstSome xs"
  by (induction xs rule: firstSome.induct) auto

lemma nodes_Nil [simp]: "nodes [] = []"
  by (simp add: nodes_def)

lemma nodes_Cons [simp]: "nodes (t # ts) = nodesT t @ nodes ts"
  by (simp add: nodes_def)

lemma nodes_append [simp]: "nodes (ts @ us) = nodes ts @ nodes us"
  by (simp add: nodes_def)

lemma nodesT_nodes: "nodesT (Elem i p ks) = (i, p) # nodes ks"
  by (simp add: nodes_def)

lemma lookupT_eid: "lookupT i t = Some e \<Longrightarrow> eid e = i"
proof (induction t)
  case (Elem j p ks)
  show ?case
  proof (cases "i = j")
    case True
    with Elem.prems show ?thesis by auto
  next
    case False
    with Elem.prems have "Some e \<in> set (map (lookupT i) ks)"
      by (auto dest: firstSome_SomeD)
    then obtain k where "k \<in> set ks" "lookupT i k = Some e" by auto
    with Elem.IH show ?thesis by blast
  qed
qed

lemma lookupT_None_iff: "lookupT i t = None \<longleftrightarrow> i \<notin> fst ` set (nodesT t)"
proof (induction t)
  case (Elem j p ks)
  show ?case
  proof (cases "i = j")
    case True
    then show ?thesis by simp
  next
    case False
    have "firstSome (map (lookupT i) ks) = None \<longleftrightarrow> (\<forall>k\<in>set ks. lookupT i k = None)"
      by (auto simp: firstSome_None_iff)
    also have "\<dots> \<longleftrightarrow> (\<forall>k\<in>set ks. i \<notin> fst ` set (nodesT k))"
      using Elem.IH by blast
    finally show ?thesis using False by auto
  qed
qed

lemma lookup_None_iff: "lookup i ts = None \<longleftrightarrow> i \<notin> fst ` set (nodes ts)"
  by (auto simp: lookup_def firstSome_None_iff lookupT_None_iff nodes_def)

lemma lookup_eid: "lookup i ts = Some e \<Longrightarrow> eid e = i"
  unfolding lookup_def by (auto dest!: firstSome_map_SomeD dest: lookupT_eid)




text \<open>The path of a node starts at the node and ends at the root.\<close>

lemma pathT_head:
  "map_option hd (pathT i t) = map_option (\<lambda>e. (eid e, eprops e)) (lookupT i t)"
proof (induction t)
  case (Elem j p ks)
  show ?case
  proof (cases "i = j")
    case True
    then show ?thesis by simp
  next
    case False
    have nonempty: "pathT i k \<noteq> Some []" for k
      by (cases k) (auto split: option.splits)
    have "map_option hd (firstSome (map (pathT i) ks)) =
          map_option (\<lambda>e. (eid e, eprops e)) (firstSome (map (lookupT i) ks))"
      using Elem.IH
    proof (induction ks)
      case Nil
      then show ?case by simp
    next
      case (Cons k ks)
      have hk: "map_option hd (pathT i k) = map_option (\<lambda>e. (eid e, eprops e)) (lookupT i k)"
        using Cons.prems by simp
      show ?case
      proof (cases "pathT i k")
        case None
        with hk have "lookupT i k = None" by simp
        with None Cons show ?thesis by simp
      next
        case (Some c)
        with hk obtain e where "lookupT i k = Some e" "hd c = (eid e, eprops e)"
          by (cases "lookupT i k") auto
        with Some show ?thesis by simp
      qed
    qed
    moreover have "map_option hd (map_option (\<lambda>c. c @ [(j, p)]) x) = map_option hd x"
      if "x \<noteq> Some []" for x :: "(nat \<times> props) list option"
      using that by (cases x) auto
    moreover have "firstSome (map (pathT i) ks) \<noteq> Some []"
    proof
      assume "firstSome (map (pathT i) ks) = Some []"
      then obtain k where "pathT i k = Some []" by (blast dest: firstSome_map_SomeD)
      with nonempty show False by blast
    qed
    ultimately show ?thesis
      using False by (auto split: option.splits)
  qed
qed


lemma pathT_nonempty: "pathT i t \<noteq> Some []"
  by (cases t) (auto split: option.splits)

lemma pathT_subset: "pathT i t = Some path \<Longrightarrow> set path \<subseteq> set (nodesT t)"
proof (induction t arbitrary: path)
  case (Elem j p ks)
  show ?case
  proof (cases "i = j")
    case True
    with Elem.prems show ?thesis by auto
  next
    case False
    with Elem.prems obtain c where c: "firstSome (map (pathT i) ks) = Some c" "path = c @ [(j, p)]"
      by (auto split: option.splits)
    then obtain k where k: "k \<in> set ks" "pathT i k = Some c"
      by (blast dest: firstSome_map_SomeD)
    with Elem.IH have "set c \<subseteq> set (nodesT k)" by blast
    with k(1) c(2) show ?thesis by auto
  qed
qed

lemma pathTo_subset: "pathTo i ts = Some path \<Longrightarrow> set path \<subseteq> set (nodes ts)"
  unfolding pathTo_def nodes_def
  by (auto dest!: firstSome_map_SomeD dest: pathT_subset)

lemma pathTo_head:
  "map_option hd (pathTo i ts) = map_option (\<lambda>e. (eid e, eprops e)) (lookup i ts)"
proof -
  have "map_option hd (firstSome (map (pathT i) ts)) =
      firstSome (map (\<lambda>t. map_option hd (pathT i t)) ts)"
    by (simp add: firstSome_map_option)
  also have "\<dots> = firstSome (map (\<lambda>t. map_option (\<lambda>e. (eid e, eprops e)) (lookupT i t)) ts)"
    by (simp add: pathT_head)
  also have "\<dots> = map_option (\<lambda>e. (eid e, eprops e)) (firstSome (map (lookupT i) ts))"
    by (simp add: firstSome_map_option)
  finally show ?thesis by (simp add: pathTo_def lookup_def)
qed

lemma pathTo_nonempty: "pathTo i ts \<noteq> Some []"
  unfolding pathTo_def using pathT_nonempty by (auto dest!: firstSome_map_SomeD)

lemma pathTo_lookup:
  assumes "lookup i ts = Some e"
  shows "\<exists>rest. pathTo i ts = Some ((i, eprops e) # rest)"
proof -
  from pathTo_head [of i ts] assms obtain path where
    path: "pathTo i ts = Some path" "hd path = (eid e, eprops e)"
    by (cases "pathTo i ts") auto
  with pathTo_nonempty [of i ts] obtain x rest where "path = x # rest"
    by (cases path) auto
  with path lookup_eid [OF assms] show ?thesis by auto
qed

lemma lookup_pathTo:
  assumes "pathTo i ts = Some ((j, p) # rest)"
  shows "\<exists>e. lookup i ts = Some e \<and> eprops e = p \<and> j = i"
proof -
  from pathTo_head [of i ts] assms obtain e where
    e: "lookup i ts = Some e" "(j, p) = (eid e, eprops e)"
    by (cases "lookup i ts") auto
  with lookup_eid [OF e(1)] show ?thesis by auto
qed

lemma fst_onNode [simp]: "fst (onNode j g kp) = fst kp"
  by (simp add: onNode_def)

lemma firstSome_map_cong:
  "(\<And>x. x \<in> set xs \<Longrightarrow> f x = g x) \<Longrightarrow> firstSome (map f xs) = firstSome (map g xs)"
  by (rule arg_cong [where f = firstSome]) simp

lemma concat_map_cong:
  "(\<And>x. x \<in> set xs \<Longrightarrow> f x = g x) \<Longrightarrow> concat (map f xs) = concat (map g xs)"
  by (rule arg_cong [where f = concat]) simp

lemma nodesT_updateProps: "nodesT (updateProps j g t) = map (onNode j g) (nodesT t)"
proof (induction t)
  case (Elem k p ks)
  have "concat (map nodesT (map (updateProps j g) ks)) =
        concat (map (\<lambda>x. map (onNode j g) (nodesT x)) ks)"
    unfolding map_map comp_def by (rule concat_map_cong) (rule Elem.IH)
  also have "\<dots> = map (onNode j g) (concat (map nodesT ks))"
    by (simp add: map_concat comp_def)
  finally have H: "concat (map nodesT (map (updateProps j g) ks)) =
      map (onNode j g) (concat (map nodesT ks))" .
  show ?case
    unfolding updateProps.simps nodesT.simps H by (simp add: onNode_def)
qed

lemma nodes_updateProps: "nodes (map (updateProps j g) ts) = map (onNode j g) (nodes ts)"
  by (simp add: nodes_def map_concat comp_def nodesT_updateProps)

lemma lookupT_updateProps:
  "lookupT i (updateProps j g t) = map_option (updateProps j g) (lookupT i t)"
proof (induction t)
  case (Elem k p ks)
  have "firstSome (map (lookupT i) (map (updateProps j g) ks)) =
        firstSome (map (\<lambda>x. map_option (updateProps j g) (lookupT i x)) ks)"
    unfolding map_map comp_def by (rule firstSome_map_cong) (rule Elem.IH)
  also have "\<dots> = map_option (updateProps j g) (firstSome (map (lookupT i) ks))"
    by (rule firstSome_map_option)
  finally have H: "firstSome (map (lookupT i) (map (updateProps j g) ks)) =
      map_option (updateProps j g) (firstSome (map (lookupT i) ks))" .
  show ?case
    unfolding updateProps.simps lookupT.simps H by simp
qed

lemma lookup_updateProps:
  "lookup i (map (updateProps j g) ts) = map_option (updateProps j g) (lookup i ts)"
  by (simp add: lookup_def comp_def lookupT_updateProps firstSome_map_option)

lemma pathT_updateProps:
  "pathT i (updateProps j g t) = map_option (map (onNode j g)) (pathT i t)"
proof (induction t)
  case (Elem k p ks)
  have "firstSome (map (pathT i) (map (updateProps j g) ks)) =
        firstSome (map (\<lambda>x. map_option (map (onNode j g)) (pathT i x)) ks)"
    unfolding map_map comp_def by (rule firstSome_map_cong) (rule Elem.IH)
  also have "\<dots> = map_option (map (onNode j g)) (firstSome (map (pathT i) ks))"
    by (rule firstSome_map_option)
  finally have H: "firstSome (map (pathT i) (map (updateProps j g) ks)) =
      map_option (map (onNode j g)) (firstSome (map (pathT i) ks))" .
  show ?case
    unfolding updateProps.simps pathT.simps H
    by (cases "firstSome (map (pathT i) ks)") (simp_all add: onNode_def)
qed

lemma pathTo_updateProps:
  "pathTo i (map (updateProps j g) ts) = map_option (map (onNode j g)) (pathTo i ts)"
  by (simp add: pathTo_def comp_def pathT_updateProps firstSome_map_option)

lemma eprops_updateProps:
  "eprops (updateProps j g e) = (if eid e = j then g (eprops e) else eprops e)"
  by (cases e) simp

lemma eid_updateProps [simp]: "eid (updateProps j g e) = eid e"
  by (cases e) simp

lemma kids_updateProps [simp]: "kids (updateProps j g e) = map (updateProps j g) (kids e)"
  by (cases e) simp

lemma updateProps_comp:
  "updateProps j g (updateProps j f t) = updateProps j (g \<circ> f) t"
  by (induction t) simp

lemma updateProps_id:
  "(\<forall>kp\<in>set (nodesT t). fst kp = j \<longrightarrow> g (snd kp) = snd kp) \<Longrightarrow> updateProps j g t = t"
proof (induction t)
  case (Elem k p ks)
  have "map (updateProps j g) ks = ks"
    using Elem by (auto intro!: map_idI)
  with Elem.prems show ?case by auto
qed

section \<open>Selecting the selected image again\<close>

text \<open>
  C10. \<open>selectImage\<close> with the image that is the current selection returns at once: the
  whole state is as before, so no overlay is removed or created, no class changes and no
  selection-changed message is sent.
\<close>

theorem selectImage_same_noop:
  "selectedImage s = Some img \<Longrightarrow> selectImage h s img = s"
  by (simp add: selectImage_def)

theorem selectImage_same_noop_witness:
  "selectedImage (examplePage\<lparr>selectedImage := Some 2\<rparr>) = Some 2
   \<and> selectImage exampleHost (examplePage\<lparr>selectedImage := Some 2\<rparr>) 2
       = examplePage\<lparr>selectedImage := Some 2\<rparr>"
  using selectImage_same_noop [of "examplePage\<lparr>selectedImage := Some 2\<rparr>" 2 exampleHost]
  by simp

section \<open>Storage change events\<close>

lemma changedSettings_flag:
  "snd (changedSettings b cur changes) \<longleftrightarrow>
     (\<exists>c. map_of changes ''noiseType'' = Some c \<and> supported (newValue c) \<noteq> None)
   \<or> (\<exists>c. map_of changes ''intensity'' = Some c \<and> newValue c \<noteq> JUndefined
          \<and> Number_of b (newValue c) \<noteq> NaN)"
  by (auto simp: changedSettings_def Let_def split: option.splits)

text \<open>
  C8 (as amended). A storage change event of an area other than \<open>local\<close> is ignored. For
  the area \<open>local\<close>, \<open>applySettings\<close> is called if and only if the event carries a
  \<open>noiseType\<close> change whose new value is one of the supported kinds, or an \<open>intensity\<close>
  change whose new value is defined and converts to a number; it is called with the
  current settings updated by those values, and the candidate is not compared with the
  current settings.
\<close>

theorem storage_change_triggers:
  "(areaName \<noteq> ''local'' \<longrightarrow>
       onStorageChanged h s changes areaName = Some s
     \<and> onStorageChanged_selection h s changes areaName = Some s)
   \<and> (snd (changedSettings (ecma h) (currentSettings s) changes) \<longleftrightarrow>
         (\<exists>c. map_of changes ''noiseType'' = Some c \<and> supported (newValue c) \<noteq> None)
       \<or> (\<exists>c. map_of changes ''intensity'' = Some c \<and> newValue c \<noteq> JUndefined
              \<and> Number_of (ecma h) (newValue c) \<noteq> NaN))
   \<and> onStorageChanged h s changes ''local'' =
       (if snd (changedSettings (ecma h) (currentSettings s) changes)
        then applySettings h s
               (settingsObject (fst (changedSettings (ecma h) (currentSettings s) changes)))
        else Some s)
   \<and> onStorageChanged_selection h s changes ''local'' =
       (if snd (changedSettings (ecma h) (currentSettings s) changes)
        then applySettings_selection h s
               (settingsObject (fst (changedSettings (ecma h) (currentSettings s) changes)))
        else Some s)"
proof -
  have a: "areaName \<noteq> ''local'' \<longrightarrow>
       onStorageChanged h s changes areaName = Some s
     \<and> onStorageChanged_selection h s changes areaName = Some s"
    by (simp add: onStorageChanged_def onStorageChanged_selection_def)
  note b = changedSettings_flag [of "ecma h" "currentSettings s" changes]
  have c: "onStorageChanged h s changes ''local'' =
       (if snd (changedSettings (ecma h) (currentSettings s) changes)
        then applySettings h s
               (settingsObject (fst (changedSettings (ecma h) (currentSettings s) changes)))
        else Some s)"
    by (simp add: onStorageChanged_def case_prod_beta)
  have d: "onStorageChanged_selection h s changes ''local'' =
       (if snd (changedSettings (ecma h) (currentSettings s) changes)
        then applySettings_selection h s
               (settingsObject (fst (changedSettings (ecma h) (currentSettings s) changes)))
        else Some s)"
    by (simp add: onStorageChanged_selection_def case_prod_beta)
  show ?thesis
    by (rule conjI [OF a conjI [OF b conjI [OF c d]]])
qed

theorem storage_change_triggers_witness:
  "''sync'' \<noteq> ''local''
   \<and> onStorageChanged exampleHost examplePage
        [(''intensity'', \<lparr>oldValue = JNumber (Fin 20), newValue = JNumber (Fin 60)\<rparr>)] ''sync''
       = Some examplePage
   \<and> onStorageChanged_selection exampleHost examplePage
        [(''intensity'', \<lparr>oldValue = JNumber (Fin 20), newValue = JNumber (Fin 60)\<rparr>)] ''sync''
       = Some examplePage
   \<and> snd (changedSettings (ecma exampleHost) (currentSettings examplePage)
        [(''intensity'', \<lparr>oldValue = JNumber (Fin 20), newValue = JNumber (Fin 60)\<rparr>)])"
  using storage_change_triggers [of "''sync''" exampleHost examplePage
      "[(''intensity'', \<lparr>oldValue = JNumber (Fin 20), newValue = JNumber (Fin 60)\<rparr>)]"]
  by simp

text \<open>
  A recognised field can change its value without any recomputation: a noise type that
  becomes an unsupported kind, an intensity that is removed.
\<close>

theorem storage_change_invalid_value_counterexample:
  "map_of exampleChanges ''noiseType''
     = Some \<lparr>oldValue = JString ''uniform'', newValue = JString ''perlin''\<rparr>
   \<and> JString ''uniform'' \<noteq> JString ''perlin''
   \<and> map_of exampleChanges ''intensity''
     = Some \<lparr>oldValue = JNumber (Fin 20), newValue = JUndefined\<rparr>
   \<and> JNumber (Fin 20) \<noteq> JUndefined
   \<and> \<not> snd (changedSettings (ecma exampleHost) (currentSettings examplePage) exampleChanges)
   \<and> onStorageChanged exampleHost examplePage exampleChanges ''local'' = Some examplePage
   \<and> onStorageChanged_selection exampleHost examplePage exampleChanges ''local''
       = Some examplePage"
  by (simp add: exampleChanges_def changedSettings_def onStorageChanged_def
      onStorageChanged_selection_def SUPPORTED_NOISE_TYPES_def)

section \<open>Export failures\<close>

lemma own_messages_not_security:
  "\<not> isSecurityError (Error noSelectedImageMessage)"
  "\<not> isSecurityError (Error imageSizeMessage)"
  "\<not> isSecurityError (Error canvasContextMessage)"
  by (simp_all add: isSecurityError_def asciiLower_def noSelectedImageMessage_def
      imageSizeMessage_def canvasContextMessage_def)

lemma own_messages_distinct:
  "distinct [noSelectedImageMessage, imageSizeMessage, canvasContextMessage,
     securityRestrictionMessage, saveFailedMessage, selectFirstMessage]"
  by (simp add: noSelectedImageMessage_def imageSizeMessage_def canvasContextMessage_def
      securityRestrictionMessage_def saveFailedMessage_def selectFirstMessage_def)

lemma own_messages_nonempty:
  "noSelectedImageMessage \<noteq> []" "imageSizeMessage \<noteq> []" "canvasContextMessage \<noteq> []"
  by (simp_all add: noSelectedImageMessage_def imageSizeMessage_def canvasContextMessage_def)

lemma tainted_message_security:
  "isSecurityError (Error ''The canvas has been tainted by cross-origin data.'')"
  by (simp add: isSecurityError_def asciiLower_def)


lemma settled_Rejected_own:
  "\<not> isSecurityError (Error m) \<Longrightarrow> m \<noteq> [] \<Longrightarrow>
     settled h s (Rejected (Error m)) = s\<lparr>outbox := outbox s @ [Response (RFail m)]\<rparr>"
  by (simp add: settled_def)

lemma settled_Rejected_security:
  "isSecurityError err \<Longrightarrow>
     settled h s (Rejected err) =
       s\<lparr>outbox := outbox s @ [Response (RFail securityRestrictionMessage)]\<rparr>"
  by (simp add: settled_def)

lemma onGenerateNoisyImage_selected:
  "selectedImage s = Some img \<Longrightarrow>
     onGenerateNoisyImage h s payload =
       (case generateNoisyDataUrl h s (Some img)
               (normalizeSettings (ecma h)
                 (if payload = JUndefined \<or> payload = JNull
                  then settingsObject (currentSettings s) else payload)) of
          None \<Rightarrow> None
        | Some (pr, s1) \<Rightarrow> Some (settled h s1 pr))"
  by (simp add: onGenerateNoisyImage_def)

lemma generateNoisyDataUrl_blocked:
  assumes "lookup img (document s) = Some e"
    and "0 < naturalWidth (eprops e)" and "0 < naturalHeight (eprops e)"
    and "canvasContext h" and "isComplete (eprops e)" and "readPixels h img = Inl err"
  shows "generateNoisyDataUrl h s (Some img) st = Some (Rejected err, s)"
  using assms by (auto simp: generateNoisyDataUrl_def finalize_def)

text \<open>
  C4 (as amended). For the selected image, the export fails with its own error in each
  failure mode, and the request is answered with \<open>ok: false\<close> and an error text; nothing
  is thrown (the handler always answers). With no natural width or height the promise is
  rejected with the image-size message, which is not the generic save-failed message.
  When no 2D context can be obtained it is rejected with the canvas-context message.
  When drawing or reading the pixels throws, the promise is rejected with the error
  thrown, also when the export had to wait for the image's \<open>load\<close> event, and the caller
  receives the localized security-restriction message if and only if the message of the
  error names a tainted canvas, a cross-origin access or security (in any letter case);
  for every other error thrown the caller receives the error's own message, or the
  generic save-failed message when it has none. The six messages are pairwise different.
\<close>

theorem export_failures_distinguished:
  assumes sel: "selectedImage s = Some img" and e: "lookup img (document s) = Some e"
  shows
    "(naturalWidth (eprops e) = 0 \<or> naturalHeight (eprops e) = 0 \<longrightarrow>
        generateNoisyDataUrl h s (Some img) st = Some (Rejected (Error imageSizeMessage), s)
      \<and> onGenerateNoisyImage h s payload =
          Some (s\<lparr>outbox := outbox s @ [Response (RFail imageSizeMessage)]\<rparr>))
   \<and> (0 < naturalWidth (eprops e) \<and> 0 < naturalHeight (eprops e) \<and> \<not> canvasContext h \<longrightarrow>
        generateNoisyDataUrl h s (Some img) st = Some (Rejected (Error canvasContextMessage), s)
      \<and> onGenerateNoisyImage h s payload =
          Some (s\<lparr>outbox := outbox s @ [Response (RFail canvasContextMessage)]\<rparr>))
   \<and> (0 < naturalWidth (eprops e) \<and> 0 < naturalHeight (eprops e) \<and> canvasContext h
      \<and> isComplete (eprops e) \<and> readPixels h img = Inl err \<longrightarrow>
        generateNoisyDataUrl h s (Some img) st = Some (Rejected err, s)
      \<and> onGenerateNoisyImage h s payload =
          Some (s\<lparr>outbox := outbox s @
            [Response (RFail (if isSecurityError err then securityRestrictionMessage
                              else if message err \<noteq> [] then message err
                              else saveFailedMessage))]\<rparr>))
   \<and> (readPixels h img = Inl err \<longrightarrow>
        runListener h img (ExportOnLoad st width height) s =
          Some (s\<lparr>outbox := outbox s @
            [Response (RFail (if isSecurityError err then securityRestrictionMessage
                              else if message err \<noteq> [] then message err
                              else saveFailedMessage))]\<rparr>))
   \<and> (isSecurityError err \<longleftrightarrow>
        containsText ''tainted'' (map asciiLower (message err))
        \<or> containsText ''cross-origin'' (map asciiLower (message err))
        \<or> containsText ''security'' (map asciiLower (message err)))
   \<and> generateNoisyDataUrl h s None st = Some (Rejected (Error noSelectedImageMessage), s)
   \<and> distinct [noSelectedImageMessage, imageSizeMessage, canvasContextMessage,
         securityRestrictionMessage, saveFailedMessage, selectFirstMessage]"
proof -
  have g1: "generateNoisyDataUrl h s (Some img) st' = Some (Rejected (Error imageSizeMessage), s)"
    if "naturalWidth (eprops e) = 0 \<or> naturalHeight (eprops e) = 0" for st'
    using that e by (auto simp: generateNoisyDataUrl_def)
  have g2: "generateNoisyDataUrl h s (Some img) st' = Some (Rejected (Error canvasContextMessage), s)"
    if "0 < naturalWidth (eprops e) \<and> 0 < naturalHeight (eprops e) \<and> \<not> canvasContext h" for st'
    using that e by (auto simp: generateNoisyDataUrl_def)
  have g3: "generateNoisyDataUrl h s (Some img) st' = Some (Rejected err, s)"
    if "0 < naturalWidth (eprops e) \<and> 0 < naturalHeight (eprops e) \<and> canvasContext h
      \<and> isComplete (eprops e) \<and> readPixels h img = Inl err" for st'
    using that generateNoisyDataUrl_blocked [OF e] by blast
  have c1: "naturalWidth (eprops e) = 0 \<or> naturalHeight (eprops e) = 0 \<longrightarrow>
        generateNoisyDataUrl h s (Some img) st = Some (Rejected (Error imageSizeMessage), s)
      \<and> onGenerateNoisyImage h s payload =
          Some (s\<lparr>outbox := outbox s @ [Response (RFail imageSizeMessage)]\<rparr>)"
    using g1 by (simp add: onGenerateNoisyImage_selected [OF sel]
        settled_Rejected_own own_messages_not_security own_messages_nonempty)
  have c2: "0 < naturalWidth (eprops e) \<and> 0 < naturalHeight (eprops e) \<and> \<not> canvasContext h \<longrightarrow>
        generateNoisyDataUrl h s (Some img) st = Some (Rejected (Error canvasContextMessage), s)
      \<and> onGenerateNoisyImage h s payload =
          Some (s\<lparr>outbox := outbox s @ [Response (RFail canvasContextMessage)]\<rparr>)"
    using g2 by (simp add: onGenerateNoisyImage_selected [OF sel]
        settled_Rejected_own own_messages_not_security own_messages_nonempty)
  have c3: "0 < naturalWidth (eprops e) \<and> 0 < naturalHeight (eprops e) \<and> canvasContext h
      \<and> isComplete (eprops e) \<and> readPixels h img = Inl err \<longrightarrow>
        generateNoisyDataUrl h s (Some img) st = Some (Rejected err, s)
      \<and> onGenerateNoisyImage h s payload =
          Some (s\<lparr>outbox := outbox s @
            [Response (RFail (if isSecurityError err then securityRestrictionMessage
                              else if message err \<noteq> [] then message err
                              else saveFailedMessage))]\<rparr>)"
    using g3 by (simp add: onGenerateNoisyImage_selected [OF sel] settled_def)
  have c4: "readPixels h img = Inl err \<longrightarrow>
        runListener h img (ExportOnLoad st width height) s =
          Some (s\<lparr>outbox := outbox s @
            [Response (RFail (if isSecurityError err then securityRestrictionMessage
                              else if message err \<noteq> [] then message err
                              else saveFailedMessage))]\<rparr>)"
    by (simp add: runListener_def finalize_def settled_def)
  have c5: "isSecurityError err \<longleftrightarrow>
        containsText ''tainted'' (map asciiLower (message err))
        \<or> containsText ''cross-origin'' (map asciiLower (message err))
        \<or> containsText ''security'' (map asciiLower (message err))"
    by (simp add: isSecurityError_def Let_def)
  have c6: "generateNoisyDataUrl h s None st = Some (Rejected (Error noSelectedImageMessage), s)"
    by (simp add: generateNoisyDataUrl_def)
  show ?thesis
    by (rule conjI [OF c1 conjI [OF c2 conjI [OF c3 conjI [OF c4
          conjI [OF c5 conjI [OF c6 own_messages_distinct]]]]]])
qed


lemma example_lookup:
  "lookup 2 (document exampleSelectedPage) = Some (exampleImage 2)"
  "lookup 3 (document exampleSelectedPage) = Some (exampleImage 3)"
  "lookup 2 (document exampleBrokenPage) = Some exampleBrokenImage"
  by (simp_all add: lookup_def exampleSelectedPage_def examplePage_def exampleDocument_def
      exampleImage_def exampleBrokenPage_def exampleBrokenImage_def)

theorem export_failures_distinguished_witness:
  "selectedImage exampleBrokenPage = Some 2
   \<and> lookup 2 (document exampleBrokenPage) = Some exampleBrokenImage
   \<and> naturalWidth (eprops exampleBrokenImage) = 0
   \<and> onGenerateNoisyImage exampleHost exampleBrokenPage JUndefined =
        Some (exampleBrokenPage\<lparr>outbox := [Response (RFail imageSizeMessage)]\<rparr>)
   \<and> selectedImage exampleSelectedPage = Some 2
   \<and> lookup 2 (document exampleSelectedPage) = Some (exampleImage 2)
   \<and> 0 < naturalWidth (eprops (exampleImage 2)) \<and> 0 < naturalHeight (eprops (exampleImage 2))
   \<and> isComplete (eprops (exampleImage 2))
   \<and> \<not> canvasContext (exampleHost\<lparr>canvasContext := False\<rparr>)
   \<and> onGenerateNoisyImage (exampleHost\<lparr>canvasContext := False\<rparr>) exampleSelectedPage JUndefined =
        Some (exampleSelectedPage\<lparr>outbox := [Response (RFail canvasContextMessage)]\<rparr>)
   \<and> canvasContext exampleHost
   \<and> readPixels exampleHost 2 = Inl (Error ''The canvas has been tainted by cross-origin data.'')
   \<and> isSecurityError (Error ''The canvas has been tainted by cross-origin data.'')
   \<and> onGenerateNoisyImage exampleHost exampleSelectedPage JUndefined =
        Some (exampleSelectedPage\<lparr>outbox := [Response (RFail securityRestrictionMessage)]\<rparr>)
   \<and> runListener exampleHost 2 (ExportOnLoad DEFAULT_SETTINGS 640 480) exampleSelectedPage =
        Some (exampleSelectedPage\<lparr>outbox := [Response (RFail securityRestrictionMessage)]\<rparr>)"
proof -
  have selB: "selectedImage exampleBrokenPage = Some 2"
    by (simp add: exampleBrokenPage_def)
  have selS: "selectedImage exampleSelectedPage = Some 2"
    by (simp add: exampleSelectedPage_def)
  have outB: "outbox exampleBrokenPage = []"
    by (simp add: exampleBrokenPage_def examplePage_def)
  have outS: "outbox exampleSelectedPage = []"
    by (simp add: exampleSelectedPage_def examplePage_def)
  have wB: "naturalWidth (eprops exampleBrokenImage) = 0"
    by (simp add: exampleBrokenImage_def createElement_def)
  have pS: "0 < naturalWidth (eprops (exampleImage 2))" "0 < naturalHeight (eprops (exampleImage 2))"
      "isComplete (eprops (exampleImage 2))"
    by (simp_all add: exampleImage_def)
  have hS: "canvasContext exampleHost" "\<not> canvasContext (exampleHost\<lparr>canvasContext := False\<rparr>)"
      "readPixels exampleHost 2 = Inl (Error ''The canvas has been tainted by cross-origin data.'')"
    by (simp_all add: exampleHost_def)
  note a = export_failures_distinguished [OF selB example_lookup(3),
      where h = exampleHost and st = DEFAULT_SETTINGS and payload = JUndefined
        and err = "Error []" and width = 0 and height = 0]
  note b = export_failures_distinguished [OF selS example_lookup(1),
      where h = "exampleHost\<lparr>canvasContext := False\<rparr>" and st = DEFAULT_SETTINGS
        and payload = JUndefined and err = "Error []" and width = 0 and height = 0]
  note c = export_failures_distinguished [OF selS example_lookup(1),
      where h = exampleHost and st = DEFAULT_SETTINGS and payload = JUndefined
        and err = "Error ''The canvas has been tainted by cross-origin data.''"
        and width = 640 and height = 480]
  show ?thesis
    using a b c selB selS outB outS wB pS hS tainted_message_security example_lookup
    by simp
qed


text \<open>
  A blocked pixel read is not always recognised: the error that a browser raises with
  the message \<open>The operation is insecure.\<close> has none of the three words in its message,
  and the caller receives that technical text instead of the security-restriction
  message.
\<close>

theorem export_insecure_message_counterexample:
  "selectedImage exampleSelectedPage = Some 2
   \<and> readPixels exampleInsecureHost 2 = Inl (Error ''The operation is insecure.'')
   \<and> \<not> isSecurityError (Error ''The operation is insecure.'')
   \<and> onGenerateNoisyImage exampleInsecureHost exampleSelectedPage JUndefined =
        Some (exampleSelectedPage\<lparr>outbox := [Response (RFail ''The operation is insecure.'')]\<rparr>)
   \<and> ''The operation is insecure.'' \<noteq> securityRestrictionMessage"
proof -
  have sel: "selectedImage exampleSelectedPage = Some 2"
    by (simp add: exampleSelectedPage_def)
  have out: "outbox exampleSelectedPage = []"
    by (simp add: exampleSelectedPage_def examplePage_def)
  have r: "readPixels exampleInsecureHost 2 = Inl (Error ''The operation is insecure.'')"
    and cc: "canvasContext exampleInsecureHost"
    by (simp_all add: exampleInsecureHost_def exampleHost_def)
  have n: "\<not> isSecurityError (Error ''The operation is insecure.'')"
    by (simp add: isSecurityError_def asciiLower_def)
  have p: "0 < naturalWidth (eprops (exampleImage 2))" "0 < naturalHeight (eprops (exampleImage 2))"
      "isComplete (eprops (exampleImage 2))"
    by (simp_all add: exampleImage_def)
  note g = generateNoisyDataUrl_blocked [OF example_lookup(1) p(1) p(2) cc p(3) r]
  have "onGenerateNoisyImage exampleInsecureHost exampleSelectedPage JUndefined =
        Some (exampleSelectedPage\<lparr>outbox := [Response (RFail ''The operation is insecure.'')]\<rparr>)"
    by (simp add: onGenerateNoisyImage_selected [OF sel] g settled_Rejected_own [OF n] out)
  moreover have "''The operation is insecure.'' \<noteq> securityRestrictionMessage"
    by (simp add: securityRestrictionMessage_def)
  ultimately show ?thesis using sel r n by simp
qed


lemma finalize_Rejected:
  "finalize h s img st width height = Some (Rejected err, s1) \<Longrightarrow>
     s1 = s \<and> readPixels h img = Inl err"
  by (auto simp: finalize_def split: sum.splits option.splits)

lemma generateNoisyDataUrl_Rejected:
  "generateNoisyDataUrl h s target st = Some (Rejected err, s1) \<Longrightarrow> s1 = s"
  by (auto simp: generateNoisyDataUrl_def Let_def
      split: option.splits if_splits dest: finalize_Rejected)

lemma settled_Rejected:
  "settled h s (Rejected err) =
     s\<lparr>outbox := outbox s @
        [Response (RFail (if isSecurityError err then securityRestrictionMessage
                          else if message err \<noteq> [] then message err
                          else saveFailedMessage))]\<rparr>"
  by (simp add: settled_def)

text \<open>
  C7. A rejected export leaves the state as it was: the state that
  \<open>generateNoisyDataUrl\<close> returns with a rejection is the state it was called in, and
  after the handler has answered, the page differs from before only by the failure
  response in what it has sent; the selection, the DOM, the settings, the texture and
  the random source are unchanged. The same holds for an export that waited for the
  \<open>load\<close> event and fails then.
\<close>

theorem failed_export_keeps_state:
  "(generateNoisyDataUrl h s target st = Some (Rejected err, s') \<longrightarrow> s' = s)
   \<and> (selectedImage s = Some img
      \<and> generateNoisyDataUrl h s (Some img)
         (normalizeSettings (ecma h)
           (if payload = JUndefined \<or> payload = JNull
            then settingsObject (currentSettings s) else payload)) = Some (Rejected err, s') \<longrightarrow>
        onGenerateNoisyImage h s payload =
          Some (s\<lparr>outbox := outbox s @
             [Response (RFail (if isSecurityError err then securityRestrictionMessage
                               else if message err \<noteq> [] then message err
                               else saveFailedMessage))]\<rparr>))
   \<and> (selectedImage s = None \<longrightarrow>
        onGenerateNoisyImage h s payload =
          Some (s\<lparr>outbox := outbox s @ [Response (RFail selectFirstMessage)]\<rparr>))
   \<and> (finalize h s img st width height = Some (Rejected err, s') \<longrightarrow>
        s' = s
      \<and> runListener h img (ExportOnLoad st width height) s =
          Some (s\<lparr>outbox := outbox s @
             [Response (RFail (if isSecurityError err then securityRestrictionMessage
                               else if message err \<noteq> [] then message err
                               else saveFailedMessage))]\<rparr>))
   \<and> selectedImage (s\<lparr>outbox := outbox s @ [Response r]\<rparr>) = selectedImage s
   \<and> document (s\<lparr>outbox := outbox s @ [Response r]\<rparr>) = document s
   \<and> currentSettings (s\<lparr>outbox := outbox s @ [Response r]\<rparr>) = currentSettings s
   \<and> noisePattern (s\<lparr>outbox := outbox s @ [Response r]\<rparr>) = noisePattern s
   \<and> random (s\<lparr>outbox := outbox s @ [Response r]\<rparr>) = random s"
proof -
  have a: "generateNoisyDataUrl h s target st = Some (Rejected err, s') \<longrightarrow> s' = s"
    by (blast dest: generateNoisyDataUrl_Rejected)
  have b: "selectedImage s = Some img
      \<and> generateNoisyDataUrl h s (Some img)
         (normalizeSettings (ecma h)
           (if payload = JUndefined \<or> payload = JNull
            then settingsObject (currentSettings s) else payload)) = Some (Rejected err, s') \<longrightarrow>
        onGenerateNoisyImage h s payload =
          Some (s\<lparr>outbox := outbox s @
             [Response (RFail (if isSecurityError err then securityRestrictionMessage
                               else if message err \<noteq> [] then message err
                               else saveFailedMessage))]\<rparr>)"
  proof
    assume r: "selectedImage s = Some img
      \<and> generateNoisyDataUrl h s (Some img)
         (normalizeSettings (ecma h)
           (if payload = JUndefined \<or> payload = JNull
            then settingsObject (currentSettings s) else payload)) = Some (Rejected err, s')"
    then have sel: "selectedImage s = Some img" by simp
    from r generateNoisyDataUrl_Rejected have "s' = s" by blast
    with r show "onGenerateNoisyImage h s payload =
          Some (s\<lparr>outbox := outbox s @
             [Response (RFail (if isSecurityError err then securityRestrictionMessage
                               else if message err \<noteq> [] then message err
                               else saveFailedMessage))]\<rparr>)"
      by (simp add: onGenerateNoisyImage_selected [OF sel] settled_Rejected)
  qed
  have n: "selectedImage s = None \<longrightarrow>
        onGenerateNoisyImage h s payload =
          Some (s\<lparr>outbox := outbox s @ [Response (RFail selectFirstMessage)]\<rparr>)"
    by (simp add: onGenerateNoisyImage_def)
  have c: "finalize h s img st width height = Some (Rejected err, s') \<longrightarrow>
        s' = s
      \<and> runListener h img (ExportOnLoad st width height) s =
          Some (s\<lparr>outbox := outbox s @
             [Response (RFail (if isSecurityError err then securityRestrictionMessage
                               else if message err \<noteq> [] then message err
                               else saveFailedMessage))]\<rparr>)"
  proof
    assume r: "finalize h s img st width height = Some (Rejected err, s')"
    from finalize_Rejected [OF r] have "s' = s" by simp
    with r
    show "s' = s
      \<and> runListener h img (ExportOnLoad st width height) s =
          Some (s\<lparr>outbox := outbox s @
             [Response (RFail (if isSecurityError err then securityRestrictionMessage
                               else if message err \<noteq> [] then message err
                               else saveFailedMessage))]\<rparr>)"
      by (simp add: runListener_def settled_Rejected)
  qed
  have d: "selectedImage (s\<lparr>outbox := outbox s @ [Response r]\<rparr>) = selectedImage s
   \<and> document (s\<lparr>outbox := outbox s @ [Response r]\<rparr>) = document s
   \<and> currentSettings (s\<lparr>outbox := outbox s @ [Response r]\<rparr>) = currentSettings s
   \<and> noisePattern (s\<lparr>outbox := outbox s @ [Response r]\<rparr>) = noisePattern s
   \<and> random (s\<lparr>outbox := outbox s @ [Response r]\<rparr>) = random s"
    by simp
  show ?thesis
    by (rule conjI [OF a conjI [OF b conjI [OF n conjI [OF c d]]]])
qed

theorem failed_export_keeps_state_witness:
  "generateNoisyDataUrl exampleHost exampleSelectedPage (Some 2) DEFAULT_SETTINGS =
     Some (Rejected (Error ''The canvas has been tainted by cross-origin data.''), exampleSelectedPage)
   \<and> selectedImage exampleSelectedPage = Some 2
   \<and> onGenerateNoisyImage exampleHost exampleSelectedPage JUndefined =
        Some (exampleSelectedPage\<lparr>outbox := [Response (RFail securityRestrictionMessage)]\<rparr>)
   \<and> finalize exampleHost exampleSelectedPage 2 DEFAULT_SETTINGS 640 480 =
     Some (Rejected (Error ''The canvas has been tainted by cross-origin data.''), exampleSelectedPage)
   \<and> runListener exampleHost 2 (ExportOnLoad DEFAULT_SETTINGS 640 480) exampleSelectedPage =
        Some (exampleSelectedPage\<lparr>outbox := [Response (RFail securityRestrictionMessage)]\<rparr>)"
proof -
  have selS: "selectedImage exampleSelectedPage = Some 2"
    by (simp add: exampleSelectedPage_def)
  have outS: "outbox exampleSelectedPage = []"
    by (simp add: exampleSelectedPage_def examplePage_def)
  have f: "finalize exampleHost exampleSelectedPage 2 st 640 480 =
     Some (Rejected (Error ''The canvas has been tainted by cross-origin data.''), exampleSelectedPage)"
    for st
    by (simp add: finalize_def exampleHost_def)
  have g: "generateNoisyDataUrl exampleHost exampleSelectedPage (Some 2) st =
     Some (Rejected (Error ''The canvas has been tainted by cross-origin data.''), exampleSelectedPage)"
    for st
    using f [of st]
    by (simp add: generateNoisyDataUrl_def example_lookup exampleImage_def)
      (simp add: exampleHost_def)
  note th = failed_export_keeps_state [where h = exampleHost and s = exampleSelectedPage
      and target = "Some 2" and st = DEFAULT_SETTINGS and payload = JUndefined and img = 2
      and width = 640 and height = 480 and s' = exampleSelectedPage
      and err = "Error ''The canvas has been tainted by cross-origin data.''"
      and r = "RFail securityRestrictionMessage"]
  show ?thesis
    using th f g selS outS tainted_message_security
    by simp
qed

section \<open>Refreshing the overlays\<close>

lemma overlayOpacity_default: "overlayOpacityFromIntensity (Fin 20) = ''0.2''"
  by (simp add: overlayOpacityFromIntensity_def clamp_def decimalString_def
      fractionDigits_def fracDigits_numeral digitChar_def frac_def)

lemma mapProps_updateProps:
  "(\<forall>kp\<in>set (nodesT t). fst kp = i \<longrightarrow> f i (g (snd kp)) = f i (snd kp)) \<Longrightarrow>
     mapProps f (updateProps i g t) = mapProps f t"
proof (induction t)
  case (Elem j p ks)
  have "map (mapProps f) (map (updateProps i g) ks) = map (mapProps f) ks"
    unfolding map_map comp_def
    using Elem by (intro map_cong refl) auto
  with Elem.prems show ?case by auto
qed

lemma map_mapProps_updateProps:
  assumes "\<forall>kp\<in>set (nodes ts). fst kp = i \<longrightarrow> f i (g (snd kp)) = f i (snd kp)"
  shows "map (mapProps f) (map (updateProps i g) ts) = map (mapProps f) ts"
  unfolding map_map comp_def
  using assms by (intro map_cong refl mapProps_updateProps) (auto simp: nodes_def)

lemma matches_overlayStyle [simp]:
  "matches c (j, overlayStyle s p) = matches c (j, p)"
  by (simp add: matches_def overlayStyle_def)

lemma forget_overlayStyle:
  "matches NOISE_OVERLAY_CLASS (j, p) \<Longrightarrow>
     forgetOverlayStyle j (overlayStyle s p) = forgetOverlayStyle j p"
  by (simp add: forgetOverlayStyle_def) (simp add: overlayStyle_def)

lemma documentNodes_subset: "set (documentNodes ts) \<subseteq> set (nodes ts)"
proof (induction ts)
  case Nil
  then show ?case by (simp add: documentNodes_def)
next
  case (Cons t ts)
  obtain j p ks where t: "t = Elem j p ks" by (cases t)
  from Cons show ?case
    by (auto simp: documentNodes_def t nodes_def)
qed

lemma querySelectorAll_nodes:
  "x \<in> set (querySelectorAll c ts) \<Longrightarrow> \<exists>kp\<in>set (nodes ts). fst kp = x \<and> matches c kp"
  using documentNodes_subset [of ts] by (auto simp: querySelectorAll_def)

lemma distinct_ids_unique:
  "distinct (map fst xs) \<Longrightarrow> kp \<in> set xs \<Longrightarrow> kp' \<in> set xs \<Longrightarrow> fst kp = fst kp' \<Longrightarrow> kp = kp'"
  by (metis eq_key_imp_eq_value prod.collapse)


lemma refresh_fold:
  assumes "\<forall>x\<in>set os. \<forall>kp\<in>set (nodes (document s)). fst kp = x \<longrightarrow> matches NOISE_OVERLAY_CLASS kp"
  shows "\<exists>d. fold (\<lambda>overlay s'. applyOverlaySettings s' overlay) os s = s\<lparr>document := d\<rparr>
           \<and> map (mapProps forgetOverlayStyle) d = map (mapProps forgetOverlayStyle) (document s)"
  using assms
proof (induction os arbitrary: s)
  case Nil
  show ?case by (intro exI [of _ "document s"]) simp
next
  case (Cons x os)
  define s1 where "s1 = applyOverlaySettings s x"
  have dom1: "document s1 = map (updateProps x (overlayStyle s)) (document s)"
    and rest1: "s1 = s\<lparr>document := document s1\<rparr>"
    by (simp_all add: s1_def applyOverlaySettings_def)
  have inv1: "\<forall>y\<in>set os. \<forall>kp\<in>set (nodes (document s1)). fst kp = y \<longrightarrow> matches NOISE_OVERLAY_CLASS kp"
  proof (intro ballI impI)
    fix y kp
    assume y: "y \<in> set os" and kp: "kp \<in> set (nodes (document s1))" and f: "fst kp = y"
    from kp obtain kp0 where kp0: "kp0 \<in> set (nodes (document s))" "kp = onNode x (overlayStyle s) kp0"
      by (auto simp: dom1 nodes_updateProps)
    with f y Cons.prems have "matches NOISE_OVERLAY_CLASS kp0" by simp
    with kp0(2) show "matches NOISE_OVERLAY_CLASS kp"
      by (cases kp0) (simp add: onNode_def matches_def overlayStyle_def)
  qed
  have erase1: "map (mapProps forgetOverlayStyle) (document s1) = map (mapProps forgetOverlayStyle) (document s)"
    unfolding dom1
  proof (rule map_mapProps_updateProps, intro ballI impI)
    fix kp
    assume kp: "kp \<in> set (nodes (document s))" and f: "fst kp = x"
    with Cons.prems have "matches NOISE_OVERLAY_CLASS kp" by simp
    with f have "matches NOISE_OVERLAY_CLASS (x, snd kp)" by (cases kp) simp
    then show "forgetOverlayStyle x (overlayStyle s (snd kp)) = forgetOverlayStyle x (snd kp)"
      by (rule forget_overlayStyle)
  qed
  from Cons.IH [OF inv1] obtain d where
    d: "fold (\<lambda>overlay s'. applyOverlaySettings s' overlay) os s1 = s1\<lparr>document := d\<rparr>"
       "map (mapProps forgetOverlayStyle) d = map (mapProps forgetOverlayStyle) (document s1)"
    by blast
  have "s1\<lparr>document := d\<rparr> = s\<lparr>document := d\<rparr>"
    by (subst rest1) simp
  with d erase1 show ?case
    by (auto simp: s1_def)
qed

text \<open>
  C9 (as amended). On a page whose nodes have distinct identities,
  \<open>refreshAllOverlays\<close> changes nothing but the background image and the opacity of
  overlay elements: with these two style properties of the overlays left out, the
  forest is the same before and after (same nodes, same order and nesting, same classes,
  attributes, markers and listeners), and the script's variables are unchanged.
\<close>

theorem refreshAllOverlays_frame:
  assumes "distinct (map fst (nodes (document s)))"
  shows "map (mapProps forgetOverlayStyle) (document (refreshAllOverlays s))
           = map (mapProps forgetOverlayStyle) (document s)
       \<and> refreshAllOverlays s = s\<lparr>document := document (refreshAllOverlays s)\<rparr>"
proof -
  have inv: "\<forall>x\<in>set (querySelectorAll NOISE_OVERLAY_CLASS (document s)).
      \<forall>kp\<in>set (nodes (document s)). fst kp = x \<longrightarrow> matches NOISE_OVERLAY_CLASS kp"
  proof (intro ballI impI)
    fix x kp
    assume x: "x \<in> set (querySelectorAll NOISE_OVERLAY_CLASS (document s))"
      and kp: "kp \<in> set (nodes (document s))" and f: "fst kp = x"
    from querySelectorAll_nodes [OF x] obtain kp0 where
      kp0: "kp0 \<in> set (nodes (document s))" "fst kp0 = x" "matches NOISE_OVERLAY_CLASS kp0" by blast
    from distinct_ids_unique [OF assms kp kp0(1)] f kp0(2) have "kp = kp0" by simp
    with kp0(3) show "matches NOISE_OVERLAY_CLASS kp" by simp
  qed
  from refresh_fold [OF inv] obtain d where
    d: "refreshAllOverlays s = s\<lparr>document := d\<rparr>"
       "map (mapProps forgetOverlayStyle) d = map (mapProps forgetOverlayStyle) (document s)"
    unfolding refreshAllOverlays_def by blast
  then show ?thesis by simp
qed

lemma exampleOverlayPage_refresh:
  "document (refreshAllOverlays exampleOverlayPage) =
       [Elem 0 ((createElement ''#document'')\<lparr>nodeType := DOCUMENT_NODE\<rparr>)
          [Elem 1 (createElement ''body'')
             [Elem 4 ((createElement ''span'')\<lparr>classList := [NOISE_WRAPPER_CLASS]\<rparr>)
                [Elem 2 ((createElement ''img'')\<lparr>attributes := [(NOISE_APPLIED_ATTR, ''true'')],
                           isComplete := True, naturalWidth := 640, naturalHeight := 480\<rparr>) [],
                 Elem 5 ((createElement ''span'')\<lparr>classList := [NOISE_OVERLAY_CLASS],
                           backgroundImage := ''url(data:image/png;base64,)'',
                           opacity := ''0.2''\<rparr>) []],
              exampleImage 3]]]"
  by (simp add: refreshAllOverlays_def querySelectorAll_def documentNodes_def nodes_def
      exampleOverlayPage_def examplePage_def exampleImage_def createElement_def matches_def
      ELEMENT_NODE_def DOCUMENT_NODE_def applyOverlaySettings_def overlayStyle_def
      overlayOpacity_default DEFAULT_SETTINGS_def NOISE_OVERLAY_CLASS_def
      NOISE_WRAPPER_CLASS_def)

theorem refreshAllOverlays_frame_witness:
  "distinct (map fst (nodes (document exampleOverlayPage)))
   \<and> map (mapProps forgetOverlayStyle) (document (refreshAllOverlays exampleOverlayPage))
       = map (mapProps forgetOverlayStyle) (document exampleOverlayPage)
   \<and> refreshAllOverlays exampleOverlayPage =
       exampleOverlayPage\<lparr>document := document (refreshAllOverlays exampleOverlayPage)\<rparr>"
proof -
  have d: "distinct (map fst (nodes (document exampleOverlayPage)))"
    by (simp add: exampleOverlayPage_def exampleImage_def nodes_def)
  from refreshAllOverlays_frame [OF d] d show ?thesis by blast
qed

text \<open>
  The opacity of an overlay is rewritten as well: an overlay made under earlier settings
  with opacity 0.5 has opacity 0.2 after the refresh under the default settings, so the
  page differs from before in more than the overlays' backgrounds.
\<close>

theorem refreshAllOverlays_opacity_counterexample:
  "map_option (\<lambda>e. opacity (eprops e)) (lookup 5 (document exampleOverlayPage)) = Some ''0.5''
   \<and> map_option (\<lambda>e. opacity (eprops e)) (lookup 5 (document (refreshAllOverlays exampleOverlayPage)))
       = Some ''0.2''
   \<and> map (mapProps forgetOverlayBackground) (document (refreshAllOverlays exampleOverlayPage))
       \<noteq> map (mapProps forgetOverlayBackground) (document exampleOverlayPage)"
  unfolding exampleOverlayPage_refresh
  by (simp add: exampleOverlayPage_def lookup_def exampleImage_def forgetOverlayBackground_def
      matches_def createElement_def ELEMENT_NODE_def NOISE_OVERLAY_CLASS_def
      NOISE_WRAPPER_CLASS_def)

section \<open>Facts about the operations on the tree\<close>

text \<open>Appending a new leaf.\<close>

lemma appendChild_absent:
  "w \<notin> fst ` set (nodesT t) \<Longrightarrow> appendChild w c t = t"
proof (induction t)
  case (Elem j p ks)
  have "map (appendChild w c) ks = ks"
    using Elem by (intro map_idI) (auto simp: image_iff)
  with Elem.prems show ?case by simp
qed

lemma nodesT_appendChild_subset:
  "set (nodesT (appendChild w c t)) \<subseteq> set (nodesT t) \<union> set (nodesT c)"
proof (induction t)
  case (Elem j p ks)
  then show ?case by auto
qed

lemma nodes_appendChild_subset:
  "set (nodes (map (appendChild w c) ts)) \<subseteq> set (nodes ts) \<union> set (nodesT c)"
  using nodesT_appendChild_subset by (fastforce simp: nodes_def)

lemma nodesT_appendChild_superset:
  "set (nodesT t) \<subseteq> set (nodesT (appendChild w c t))"
proof (induction t)
  case (Elem j p ks)
  then show ?case by auto
qed

lemma nodes_appendChild_superset:
  "set (nodes ts) \<subseteq> set (nodes (map (appendChild w c) ts))"
  using nodesT_appendChild_superset by (fastforce simp: nodes_def)

lemma pathT_appendChild:
  "pathT y c = None \<Longrightarrow> pathT y (appendChild w c t) = pathT y t"
proof (induction t)
  case (Elem j p ks)
  have "firstSome (map (pathT y) (map (appendChild w c) ks)) = firstSome (map (pathT y) ks)"
    unfolding map_map comp_def
    by (rule firstSome_map_cong) (rule Elem.IH [OF _ Elem.prems])
  moreover have "firstSome (map (pathT y) (map (appendChild w c) ks @ [c]))
      = firstSome (map (pathT y) (map (appendChild w c) ks))"
    using Elem.prems by (simp add: firstSome_append_None)
  ultimately show ?case by simp
qed

lemma pathTo_appendChild:
  "pathT y c = None \<Longrightarrow> pathTo y (map (appendChild w c) ts) = pathTo y ts"
  by (simp add: pathTo_def comp_def pathT_appendChild)

lemma lookupT_appendChild:
  "lookupT y c = None \<Longrightarrow>
     lookupT y (appendChild w c t) = map_option (appendChild w c) (lookupT y t)"
proof (induction t)
  case (Elem j p ks)
  have "firstSome (map (lookupT y) (map (appendChild w c) ks)) =
        firstSome (map (\<lambda>x. map_option (appendChild w c) (lookupT y x)) ks)"
    unfolding map_map comp_def
    by (rule firstSome_map_cong) (rule Elem.IH [OF _ Elem.prems])
  also have "\<dots> = map_option (appendChild w c) (firstSome (map (lookupT y) ks))"
    by (rule firstSome_map_option)
  finally have H: "firstSome (map (lookupT y) (map (appendChild w c) ks)) =
      map_option (appendChild w c) (firstSome (map (lookupT y) ks))" .
  have "firstSome (map (lookupT y) (map (appendChild w c) ks @ [c]))
      = firstSome (map (lookupT y) (map (appendChild w c) ks))"
    using Elem.prems by (simp add: firstSome_append_None)
  with H show ?case by simp
qed

lemma lookup_appendChild:
  "lookupT y c = None \<Longrightarrow>
     lookup y (map (appendChild w c) ts) = map_option (appendChild w c) (lookup y ts)"
  by (simp add: lookup_def comp_def lookupT_appendChild firstSome_map_option)

text \<open>Distinct identities.\<close>

lemma distinct_concat_map_fresh:
  assumes "distinct (concat (map f ks))"
    and "z \<notin> set (concat (map f ks))"
    and "\<And>k. k \<in> set ks \<Longrightarrow>
           distinct (g k) \<and> set (g k) \<subseteq> set (f k) \<union> {z} \<and> (z \<in> set (g k) \<longrightarrow> y \<in> set (f k))"
  shows "distinct (concat (map g ks))"
  using assms
proof (induction ks)
  case Nil
  then show ?case by simp
next
  case (Cons k ks)
  have dk: "distinct (g k)" and sk: "set (g k) \<subseteq> set (f k) \<union> {z}"
    and zk: "z \<in> set (g k) \<longrightarrow> y \<in> set (f k)"
    using Cons.prems(3) [of k] by simp_all
  have rest: "distinct (concat (map g ks))"
    using Cons.prems by (intro Cons.IH) auto
  have disj: "set (g k) \<inter> set (concat (map g ks)) = {}"
  proof (rule ccontr)
    assume "set (g k) \<inter> set (concat (map g ks)) \<noteq> {}"
    then obtain x k' where x: "x \<in> set (g k)" "k' \<in> set ks" "x \<in> set (g k')" by auto
    from Cons.prems(3) [of k'] x(2)
    have sk': "set (g k') \<subseteq> set (f k') \<union> {z}" and zk': "z \<in> set (g k') \<longrightarrow> y \<in> set (f k')"
      by simp_all
    from Cons.prems(1) x(2) have d: "set (f k) \<inter> set (f k') = {}" by auto
    show False
    proof (cases "x = z")
      case True
      with x zk zk' have "y \<in> set (f k)" "y \<in> set (f k')" by auto
      with d show False by auto
    next
      case False
      with x sk sk' have "x \<in> set (f k)" "x \<in> set (f k')" by auto
      with d show False by auto
    qed
  qed
  from dk rest disj show ?case by simp
qed

lemma ids_nodes: "map fst (nodes ts) = concat (map (\<lambda>t. map fst (nodesT t)) ts)"
  by (simp add: nodes_def map_concat comp_def)

lemma ids_nodesT: "map fst (nodesT (Elem j p ks)) = j # concat (map (\<lambda>t. map fst (nodesT t)) ks)"
  by (simp add: map_concat comp_def)

lemma lookupT_distinct:
  "lookupT i t = Some e \<Longrightarrow> distinct (map fst (nodesT t)) \<Longrightarrow> distinct (map fst (nodesT e))"
proof (induction t)
  case (Elem j p ks)
  show ?case
  proof (cases "i = j")
    case True
    with Elem.prems show ?thesis by auto
  next
    case False
    with Elem.prems obtain k where k: "k \<in> set ks" "lookupT i k = Some e"
      by (auto dest: firstSome_map_SomeD)
    from Elem.prems(2) have "distinct (concat (map (\<lambda>t. map fst (nodesT t)) ks))"
      unfolding ids_nodesT by simp
    with k(1) have "distinct (map fst (nodesT k))"
      by (auto simp: distinct_concat_iff)
    with Elem.IH k show ?thesis by blast
  qed
qed

lemma lookup_distinct:
  "lookup i ts = Some e \<Longrightarrow> distinct (map fst (nodes ts)) \<Longrightarrow> distinct (map fst (nodesT e))"
proof -
  assume l: "lookup i ts = Some e" and d: "distinct (map fst (nodes ts))"
  from l obtain t where t: "t \<in> set ts" "lookupT i t = Some e"
    unfolding lookup_def by (auto dest: firstSome_map_SomeD)
  from d t(1) have "distinct (map fst (nodesT t))"
    unfolding ids_nodes by (auto simp: distinct_concat_iff)
  with t(2) show ?thesis by (rule lookupT_distinct)
qed

lemma appendChild_new_id:
  "x \<in> fst ` set (nodesT (appendChild w (Elem z cp []) t)) \<Longrightarrow> x \<notin> fst ` set (nodesT t) \<Longrightarrow>
     x = z \<and> w \<in> fst ` set (nodesT t)"
proof -
  assume x: "x \<in> fst ` set (nodesT (appendChild w (Elem z cp []) t))" and n: "x \<notin> fst ` set (nodesT t)"
  from x n nodesT_appendChild_subset [of w "Elem z cp []" t] have "x = z" by auto
  moreover have "w \<in> fst ` set (nodesT t)"
  proof (rule ccontr)
    assume "w \<notin> fst ` set (nodesT t)"
    then have "appendChild w (Elem z cp []) t = t" by (rule appendChild_absent)
    with x n show False by simp
  qed
  ultimately show ?thesis by simp
qed

lemma distinct_appendChildT:
  "distinct (map fst (nodesT t)) \<Longrightarrow> z \<notin> fst ` set (nodesT t) \<Longrightarrow>
     distinct (map fst (nodesT (appendChild w (Elem z cp []) t)))"
proof (induction t)
  case (Elem j p ks)
  let ?a = "appendChild w (Elem z cp [])"
  have dks: "distinct (concat (map (\<lambda>t. map fst (nodesT t)) ks))"
    and jks: "j \<notin> set (concat (map (\<lambda>t. map fst (nodesT t)) ks))"
    using Elem.prems(1) unfolding ids_nodesT by simp_all
  have zks: "z \<notin> set (concat (map (\<lambda>t. map fst (nodesT t)) ks))" and zj: "z \<noteq> j"
    using Elem.prems(2) unfolding set_map [symmetric] ids_nodesT by auto
  have each: "distinct (map fst (nodesT (?a k))) \<and>
        set (map fst (nodesT (?a k))) \<subseteq> set (map fst (nodesT k)) \<union> {z} \<and>
        (z \<in> set (map fst (nodesT (?a k))) \<longrightarrow> w \<in> set (map fst (nodesT k)))"
    if k: "k \<in> set ks" for k
  proof -
    from dks k have dk: "distinct (map fst (nodesT k))" by (auto simp: distinct_concat_iff)
    from zks k have zk: "z \<notin> fst ` set (nodesT k)" by auto
    have 1: "distinct (map fst (nodesT (?a k)))" by (rule Elem.IH [OF k dk zk])
    have 2: "set (map fst (nodesT (?a k))) \<subseteq> set (map fst (nodesT k)) \<union> {z}"
      using nodesT_appendChild_subset [of w "Elem z cp []" k] by auto
    have 3: "z \<in> set (map fst (nodesT (?a k))) \<longrightarrow> w \<in> set (map fst (nodesT k))"
      using appendChild_new_id [of z w z cp k] zk by auto
    from 1 2 3 show ?thesis by blast
  qed
  have d': "distinct (concat (map (\<lambda>t. map fst (nodesT (?a t))) ks))"
    by (rule distinct_concat_map_fresh [OF dks zks each])
  have sub: "set (concat (map (\<lambda>t. map fst (nodesT (?a t))) ks))
      \<subseteq> set (concat (map (\<lambda>t. map fst (nodesT t)) ks)) \<union> {z}"
  proof
    fix x
    assume "x \<in> set (concat (map (\<lambda>t. map fst (nodesT (?a t))) ks))"
    then obtain k where k: "k \<in> set ks" "x \<in> set (map fst (nodesT (?a k)))" by auto
    with each have "x \<in> set (map fst (nodesT k)) \<union> {z}" by blast
    with k(1) show "x \<in> set (concat (map (\<lambda>t. map fst (nodesT t)) ks)) \<union> {z}" by auto
  qed
  have j': "j \<notin> set (concat (map (\<lambda>t. map fst (nodesT (?a t))) ks))"
    using sub jks zj by auto
  have ids: "map fst (nodesT (?a (Elem j p ks))) =
      j # concat (map (\<lambda>t. map fst (nodesT (?a t))) ks) @ (if j = w then [z] else [])"
    by (simp add: map_concat comp_def)
  show ?case
  proof (cases "j = w")
    case False
    with d' j' show ?thesis unfolding ids by simp
  next
    case True
    have "z \<notin> set (concat (map (\<lambda>t. map fst (nodesT (?a t))) ks))"
    proof
      assume "z \<in> set (concat (map (\<lambda>t. map fst (nodesT (?a t))) ks))"
      then obtain k where k: "k \<in> set ks" "z \<in> set (map fst (nodesT (?a k)))" by auto
      with each have "w \<in> set (map fst (nodesT k))" by blast
      with k(1) jks True show False by auto
    qed
    with d' j' zj show ?thesis unfolding ids by simp
  qed
qed

lemma distinct_appendChild:
  assumes "distinct (map fst (nodes ts))" and "z \<notin> fst ` set (nodes ts)"
  shows "distinct (map fst (nodes (map (appendChild w (Elem z cp [])) ts)))"
proof -
  let ?a = "appendChild w (Elem z cp [])"
  have dts: "distinct (concat (map (\<lambda>t. map fst (nodesT t)) ts))"
    using assms(1) unfolding ids_nodes .
  have zts: "z \<notin> set (concat (map (\<lambda>t. map fst (nodesT t)) ts))"
    using assms(2) unfolding set_map [symmetric] ids_nodes .
  have each: "distinct (map fst (nodesT (?a k))) \<and>
        set (map fst (nodesT (?a k))) \<subseteq> set (map fst (nodesT k)) \<union> {z} \<and>
        (z \<in> set (map fst (nodesT (?a k))) \<longrightarrow> w \<in> set (map fst (nodesT k)))"
    if k: "k \<in> set ts" for k
  proof -
    from dts k have dk: "distinct (map fst (nodesT k))" by (auto simp: distinct_concat_iff)
    from zts k have zk: "z \<notin> fst ` set (nodesT k)" by auto
    have 1: "distinct (map fst (nodesT (?a k)))" by (rule distinct_appendChildT [OF dk zk])
    have 2: "set (map fst (nodesT (?a k))) \<subseteq> set (map fst (nodesT k)) \<union> {z}"
      using nodesT_appendChild_subset [of w "Elem z cp []" k] by auto
    have 3: "z \<in> set (map fst (nodesT (?a k))) \<longrightarrow> w \<in> set (map fst (nodesT k))"
      using appendChild_new_id [of z w z cp k] zk by auto
    from 1 2 3 show ?thesis by blast
  qed
  have "distinct (concat (map (\<lambda>t. map fst (nodesT (?a t))) ts))"
    by (rule distinct_concat_map_fresh [OF dts zts each])
  then show ?thesis
    unfolding ids_nodes map_map comp_def .
qed

text \<open>A new identity.\<close>

lemma fold_max_ge: "(a::nat) \<le> fold max xs a"
  by (induction xs arbitrary: a) (auto intro: order_trans [OF max.cobounded2])

lemma fold_max_mem: "x \<in> set xs \<Longrightarrow> (x::nat) \<le> fold max xs a"
proof (induction xs arbitrary: a)
  case Nil
  then show ?case by simp
next
  case (Cons y ys)
  show ?case
  proof (cases "x = y")
    case True
    have "max y a \<le> fold max ys (max y a)" by (rule fold_max_ge)
    with True show ?thesis by simp
  next
    case False
    with Cons show ?thesis by simp
  qed
qed

lemma freshId_fresh: "freshId ts \<notin> fst ` set (nodes ts)"
proof
  assume "freshId ts \<in> fst ` set (nodes ts)"
  then have "freshId ts \<in> set (map fst (nodes ts))" by simp
  from fold_max_mem [OF this, of 0] show False by (simp add: freshId_def)
qed

text \<open>Putting a node into a new wrapper.\<close>

lemma wrapNode_absent:
  "i \<notin> fst ` set (nodesT t) \<Longrightarrow> wrapNode i w wp t = t"
proof (induction t)
  case (Elem j p ks)
  have "map (wrapNode i w wp) ks = ks"
    using Elem by (intro map_idI) (auto simp: image_iff)
  with Elem.prems show ?case by simp
qed

lemma nodesT_wrapNode_subset:
  "set (nodesT (wrapNode i w wp t)) \<subseteq> set (nodesT t) \<union> {(w, wp)}"
proof (induction t)
  case (Elem j p ks)
  then show ?case by auto
qed


lemma nodesT_wrapNode_superset:
  "set (nodesT t) \<subseteq> set (nodesT (wrapNode i w wp t))"
proof (induction t)
  case (Elem j p ks)
  then show ?case by auto
qed

lemma nodes_wrapNode_superset:
  "set (nodes ts) \<subseteq> set (nodes (map (wrapNode i w wp) ts))"
  using nodesT_wrapNode_superset by (fastforce simp: nodes_def)

lemma wrapNode_new_id:
  assumes "x \<in> fst ` set (nodesT (wrapNode i w wp t))" and "x \<notin> fst ` set (nodesT t)"
  shows "x = w \<and> i \<in> fst ` set (nodesT t)"
proof -
  from assms nodesT_wrapNode_subset [of i w wp t] have "x = w" by auto
  moreover have "i \<in> fst ` set (nodesT t)"
  proof (rule ccontr)
    assume "i \<notin> fst ` set (nodesT t)"
    then have "wrapNode i w wp t = t" by (rule wrapNode_absent)
    with assms show False by simp
  qed
  ultimately show ?thesis by simp
qed

lemma distinct_wrapNodeT:
  "distinct (map fst (nodesT t)) \<Longrightarrow> w \<notin> fst ` set (nodesT t) \<Longrightarrow>
     distinct (map fst (nodesT (wrapNode i w wp t)))"
proof (induction t)
  case (Elem j p ks)
  let ?a = "wrapNode i w wp"
  have dks: "distinct (concat (map (\<lambda>t. map fst (nodesT t)) ks))"
    and jks: "j \<notin> set (concat (map (\<lambda>t. map fst (nodesT t)) ks))"
    using Elem.prems(1) unfolding ids_nodesT by simp_all
  have zks: "w \<notin> set (concat (map (\<lambda>t. map fst (nodesT t)) ks))" and zj: "w \<noteq> j"
    using Elem.prems(2) unfolding set_map [symmetric] ids_nodesT by auto
  show ?case
  proof (cases "j = i")
    case True
    have "map fst (nodesT (?a (Elem j p ks))) = w # map fst (nodesT (Elem j p ks))"
      using True by simp
    with Elem.prems show ?thesis
      unfolding set_map [symmetric] by simp
  next
    case False
    have each: "distinct (map fst (nodesT (?a k))) \<and>
          set (map fst (nodesT (?a k))) \<subseteq> set (map fst (nodesT k)) \<union> {w} \<and>
          (w \<in> set (map fst (nodesT (?a k))) \<longrightarrow> i \<in> set (map fst (nodesT k)))"
      if k: "k \<in> set ks" for k
    proof -
      from dks k have dk: "distinct (map fst (nodesT k))" by (auto simp: distinct_concat_iff)
      from zks k have zk: "w \<notin> fst ` set (nodesT k)" by auto
      have 1: "distinct (map fst (nodesT (?a k)))" by (rule Elem.IH [OF k dk zk])
      have 2: "set (map fst (nodesT (?a k))) \<subseteq> set (map fst (nodesT k)) \<union> {w}"
        using nodesT_wrapNode_subset [of i w wp k] by auto
      have 3: "w \<in> set (map fst (nodesT (?a k))) \<longrightarrow> i \<in> set (map fst (nodesT k))"
        using wrapNode_new_id [of w i w wp k] zk by auto
      from 1 2 3 show ?thesis by blast
    qed
    have d': "distinct (concat (map (\<lambda>t. map fst (nodesT (?a t))) ks))"
      by (rule distinct_concat_map_fresh [OF dks zks each])
    have sub: "set (concat (map (\<lambda>t. map fst (nodesT (?a t))) ks))
        \<subseteq> set (concat (map (\<lambda>t. map fst (nodesT t)) ks)) \<union> {w}"
    proof
      fix x
      assume "x \<in> set (concat (map (\<lambda>t. map fst (nodesT (?a t))) ks))"
      then obtain k where k: "k \<in> set ks" "x \<in> set (map fst (nodesT (?a k)))" by auto
      with each have "x \<in> set (map fst (nodesT k)) \<union> {w}" by blast
      with k(1) show "x \<in> set (concat (map (\<lambda>t. map fst (nodesT t)) ks)) \<union> {w}" by auto
    qed
    have j': "j \<notin> set (concat (map (\<lambda>t. map fst (nodesT (?a t))) ks))"
      using sub jks zj by auto
    have "map fst (nodesT (?a (Elem j p ks))) =
        j # concat (map (\<lambda>t. map fst (nodesT (?a t))) ks)"
      using False by (simp add: map_concat comp_def)
    with d' j' show ?thesis by simp
  qed
qed

lemma distinct_wrapNode:
  assumes "distinct (map fst (nodes ts))" and "w \<notin> fst ` set (nodes ts)"
  shows "distinct (map fst (nodes (map (wrapNode i w wp) ts)))"
proof -
  let ?a = "wrapNode i w wp"
  have dts: "distinct (concat (map (\<lambda>t. map fst (nodesT t)) ts))"
    using assms(1) unfolding ids_nodes .
  have zts: "w \<notin> set (concat (map (\<lambda>t. map fst (nodesT t)) ts))"
    using assms(2) unfolding set_map [symmetric] ids_nodes .
  have each: "distinct (map fst (nodesT (?a k))) \<and>
        set (map fst (nodesT (?a k))) \<subseteq> set (map fst (nodesT k)) \<union> {w} \<and>
        (w \<in> set (map fst (nodesT (?a k))) \<longrightarrow> i \<in> set (map fst (nodesT k)))"
    if k: "k \<in> set ts" for k
  proof -
    from dts k have dk: "distinct (map fst (nodesT k))" by (auto simp: distinct_concat_iff)
    from zts k have zk: "w \<notin> fst ` set (nodesT k)" by auto
    have 1: "distinct (map fst (nodesT (?a k)))" by (rule distinct_wrapNodeT [OF dk zk])
    have 2: "set (map fst (nodesT (?a k))) \<subseteq> set (map fst (nodesT k)) \<union> {w}"
      using nodesT_wrapNode_subset [of i w wp k] by auto
    have 3: "w \<in> set (map fst (nodesT (?a k))) \<longrightarrow> i \<in> set (map fst (nodesT k))"
      using wrapNode_new_id [of w i w wp k] zk by auto
    from 1 2 3 show ?thesis by blast
  qed
  have "distinct (concat (map (\<lambda>t. map fst (nodesT (?a t))) ts))"
    by (rule distinct_concat_map_fresh [OF dts zts each])
  then show ?thesis
    unfolding ids_nodes map_map comp_def .
qed

lemma firstSome_map_rel:
  "(\<And>k. k \<in> set ks \<Longrightarrow> rel_option R (f k) (g k)) \<Longrightarrow>
     rel_option R (firstSome (map f ks)) (firstSome (map g ks))"
proof (induction ks)
  case Nil
  then show ?case by simp
next
  case (Cons k ks)
  from Cons.prems [of k] have r: "rel_option R (f k) (g k)" by simp
  show ?case
  proof (cases "f k")
    case None
    with r have "g k = None" by simp
    with None Cons show ?thesis by simp
  next
    case (Some a)
    with r obtain b where "g k = Some b" "R a b" by (cases "g k") auto
    with Some show ?thesis by simp
  qed
qed

lemma firstSome_map_transfer:
  assumes "firstSome (map f ks) = Some c"
    and "\<And>k. k \<in> set ks \<Longrightarrow> f k = None \<Longrightarrow> g k = None"
    and "\<And>k. k \<in> set ks \<Longrightarrow> f k = Some c \<Longrightarrow> g k = Some c'"
  shows "firstSome (map g ks) = Some c'"
  using assms
proof (induction ks)
  case Nil
  then show ?case by simp
next
  case (Cons k ks)
  show ?case
  proof (cases "f k")
    case None
    with Cons.prems(2) [of k] have "g k = None" by simp
    with None Cons show ?thesis by simp
  next
    case (Some a)
    with Cons.prems(1) have "a = c" by simp
    with Some Cons.prems(3) [of k] have "g k = Some c'" by simp
    then show ?thesis by simp
  qed
qed

text \<open>The path of the wrapped node: the wrapper comes right after the node.\<close>

lemma pathT_wrapNode_self:
  "i \<noteq> w \<Longrightarrow>
     pathT i (wrapNode i w wp t) = map_option (\<lambda>path. hd path # (w, wp) # tl path) (pathT i t)"
proof (induction t)
  case (Elem j p ks)
  show ?case
  proof (cases "j = i")
    case True
    with Elem.prems show ?thesis by simp
  next
    case False
    have "firstSome (map (pathT i) (map (wrapNode i w wp) ks)) =
          firstSome (map (\<lambda>x. map_option (\<lambda>path. hd path # (w, wp) # tl path) (pathT i x)) ks)"
      unfolding map_map comp_def
      by (rule firstSome_map_cong) (rule Elem.IH [OF _ Elem.prems])
    also have "\<dots> = map_option (\<lambda>path. hd path # (w, wp) # tl path) (firstSome (map (pathT i) ks))"
      by (rule firstSome_map_option)
    finally have H: "firstSome (map (pathT i) (map (wrapNode i w wp) ks)) =
        map_option (\<lambda>path. hd path # (w, wp) # tl path) (firstSome (map (pathT i) ks))" .
    have ne: "firstSome (map (pathT i) ks) \<noteq> Some []"
    proof
      assume "firstSome (map (pathT i) ks) = Some []"
      then obtain k where "pathT i k = Some []" by (blast dest: firstSome_map_SomeD)
      with pathT_nonempty show False by blast
    qed
    show ?thesis
    proof (cases "firstSome (map (pathT i) ks)")
      case None
      with H False show ?thesis by simp
    next
      case (Some c)
      with ne obtain x xs where c: "c = x # xs" by (cases c) auto
      with H False Some show ?thesis by simp
    qed
  qed
qed

lemma pathTo_wrapNode_self:
  "i \<noteq> w \<Longrightarrow>
     pathTo i (map (wrapNode i w wp) ts) =
       map_option (\<lambda>path. hd path # (w, wp) # tl path) (pathTo i ts)"
  by (simp add: pathTo_def comp_def pathT_wrapNode_self firstSome_map_option)

text \<open>The path of any other node keeps its head and its elements, and grows by the wrapper at most.\<close>

lemma pathT_wrapNode_other:
  "y \<noteq> w \<Longrightarrow> rel_option (pathGrows (w, wp)) (pathT y t) (pathT y (wrapNode i w wp t))"
proof (induction t)
  case (Elem j p ks)
  have ne: "c \<noteq> []" if "firstSome (map (pathT y) ks) = Some c" for c
  proof
    assume "c = []"
    with that obtain k where "pathT y k = Some []" by (blast dest: firstSome_map_SomeD)
    with pathT_nonempty show False by blast
  qed
  show ?case
  proof (cases "j = i")
    case True
    show ?thesis
    proof (cases "y = j")
      case True
      with \<open>j = i\<close> Elem.prems show ?thesis by (simp add: pathGrows_def)
    next
      case False
      show ?thesis
      proof (cases "firstSome (map (pathT y) ks)")
        case None
        with False True Elem.prems show ?thesis by simp
      next
        case (Some c)
        with ne have "c \<noteq> []" by simp
        with Some False True Elem.prems show ?thesis
          by (auto simp: pathGrows_def)
      qed
    qed
  next
    case False
    have r: "rel_option (pathGrows (w, wp)) (firstSome (map (pathT y) ks))
        (firstSome (map (\<lambda>k. pathT y (wrapNode i w wp k)) ks))"
      by (rule firstSome_map_rel) (rule Elem.IH [OF _ Elem.prems])
    show ?thesis
    proof (cases "y = j")
      case True
      with False show ?thesis by (simp add: pathGrows_def)
    next
      case yj: False
      show ?thesis
      proof (cases "firstSome (map (pathT y) ks)")
        case None
        with r have "firstSome (map (\<lambda>k. pathT y (wrapNode i w wp k)) ks) = None" by simp
        with None False yj show ?thesis by (simp add: comp_def)
      next
        case (Some c)
        with r obtain c' where c': "firstSome (map (\<lambda>k. pathT y (wrapNode i w wp k)) ks) = Some c'"
          "pathGrows (w, wp) c c'"
          by (cases "firstSome (map (\<lambda>k. pathT y (wrapNode i w wp k)) ks)") auto
        from ne [OF Some] have "c \<noteq> []" .
        moreover from c'(2) this have "c' \<noteq> []" by (auto simp: pathGrows_def)
        ultimately have "pathGrows (w, wp) (c @ [(j, p)]) (c' @ [(j, p)])"
          using c'(2) by (auto simp: pathGrows_def)
        with Some c'(1) False yj show ?thesis by (simp add: comp_def)
      qed
    qed
  qed
qed

lemma pathTo_wrapNode_other:
  "y \<noteq> w \<Longrightarrow>
     rel_option (pathGrows (w, wp)) (pathTo y ts) (pathTo y (map (wrapNode i w wp) ts))"
  unfolding pathTo_def map_map comp_def
  by (rule firstSome_map_rel) (rule pathT_wrapNode_other)

text \<open>The wrapper holds the wrapped node and its subtree.\<close>

lemma lookupT_wrapNode_wrapper:
  "w \<notin> fst ` set (nodesT t) \<Longrightarrow>
     lookupT w (wrapNode i w wp t) = map_option (\<lambda>e. Elem w wp [e]) (lookupT i t)"
proof (induction t)
  case (Elem j p ks)
  show ?case
  proof (cases "j = i")
    case True
    then show ?thesis by simp
  next
    case False
    have "firstSome (map (lookupT w) (map (wrapNode i w wp) ks)) =
          firstSome (map (\<lambda>x. map_option (\<lambda>e. Elem w wp [e]) (lookupT i x)) ks)"
      unfolding map_map comp_def
    proof (rule firstSome_map_cong)
      fix k assume k: "k \<in> set ks"
      with Elem.prems have "w \<notin> fst ` set (nodesT k)" by auto
      with Elem.IH k show "lookupT w (wrapNode i w wp k) = map_option (\<lambda>e. Elem w wp [e]) (lookupT i k)"
        by blast
    qed
    also have "\<dots> = map_option (\<lambda>e. Elem w wp [e]) (firstSome (map (lookupT i) ks))"
      by (rule firstSome_map_option)
    finally have H: "firstSome (map (lookupT w) (map (wrapNode i w wp) ks)) =
        map_option (\<lambda>e. Elem w wp [e]) (firstSome (map (lookupT i) ks))" .
    from Elem.prems have "w \<noteq> j" by auto
    with H False show ?thesis by auto
  qed
qed

lemma lookup_wrapNode_wrapper:
  assumes "w \<notin> fst ` set (nodes ts)"
  shows "lookup w (map (wrapNode i w wp) ts) = map_option (\<lambda>e. Elem w wp [e]) (lookup i ts)"
proof -
  have "firstSome (map (lookupT w) (map (wrapNode i w wp) ts)) =
        firstSome (map (\<lambda>x. map_option (\<lambda>e. Elem w wp [e]) (lookupT i x)) ts)"
    unfolding map_map comp_def
  proof (rule firstSome_map_cong)
    fix k assume k: "k \<in> set ts"
    with assms have "w \<notin> fst ` set (nodesT k)" by (auto simp: nodes_def)
    then show "lookupT w (wrapNode i w wp k) = map_option (\<lambda>e. Elem w wp [e]) (lookupT i k)"
      by (rule lookupT_wrapNode_wrapper)
  qed
  also have "\<dots> = map_option (\<lambda>e. Elem w wp [e]) (firstSome (map (lookupT i) ts))"
    by (rule firstSome_map_option)
  finally show ?thesis by (simp add: lookup_def)
qed

text \<open>Removing a node.\<close>

lemma firstSome_concat:
  "firstSome (map f (concat xss)) = firstSome (map (\<lambda>xs. firstSome (map f xs)) xss)"
proof (induction xss)
  case Nil
  then show ?case by simp
next
  case (Cons xs xss)
  have "firstSome (map f xs @ ys) = (case firstSome (map f xs) of None \<Rightarrow> firstSome ys | Some a \<Rightarrow> Some a)"
    for ys
    by (induction xs) (auto split: option.splits, (case_tac "f a"; simp)+)
  with Cons show ?case by (simp split: option.splits)
qed

lemma ids_nodes_concat:
  "map fst (nodes (concat (map f ts))) = concat (map (\<lambda>t. map fst (nodes (f t))) ts)"
  by (induction ts) simp_all

lemma nodesT_removeNode_subset:
  "set (nodes (removeNode x t)) \<subseteq> {kp \<in> set (nodesT t). fst kp \<noteq> x}"
proof (induction t)
  case (Elem j p ks)
  show ?case
  proof (cases "j = x")
    case True
    then show ?thesis by simp
  next
    case False
    have "set (nodes (concat (map (removeNode x) ks))) \<subseteq> {kp \<in> set (nodes ks). fst kp \<noteq> x}"
    proof
      fix kp assume "kp \<in> set (nodes (concat (map (removeNode x) ks)))"
      then obtain k where k: "k \<in> set ks" "kp \<in> set (nodes (removeNode x k))"
        by (auto simp: nodes_def)
      with Elem.IH have "kp \<in> set (nodesT k)" "fst kp \<noteq> x" by blast+
      with k(1) show "kp \<in> {kp \<in> set (nodes ks). fst kp \<noteq> x}" by (auto simp: nodes_def)
    qed
    moreover have "nodes (removeNode x (Elem j p ks)) = (j, p) # nodes (concat (map (removeNode x) ks))"
      using False by (simp add: nodes_def)
    ultimately show ?thesis
      unfolding nodesT_nodes using False by auto
  qed
qed

lemma nodes_removeNode_subset:
  "set (nodes (concat (map (removeNode x) ts))) \<subseteq> {kp \<in> set (nodes ts). fst kp \<noteq> x}"
proof
  fix kp assume "kp \<in> set (nodes (concat (map (removeNode x) ts)))"
  then obtain k where k: "k \<in> set ts" "kp \<in> set (nodes (removeNode x k))"
    by (auto simp: nodes_def)
  with nodesT_removeNode_subset [of x k] have "kp \<in> set (nodesT k)" "fst kp \<noteq> x" by blast+
  with k(1) show "kp \<in> {kp \<in> set (nodes ts). fst kp \<noteq> x}" by (auto simp: nodes_def)
qed

lemma pathT_None_iff: "pathT y t = None \<longleftrightarrow> y \<notin> fst ` set (nodesT t)"
proof -
  have "pathT y t = None \<longleftrightarrow> lookupT y t = None"
    using pathT_head [of y t] by (cases "pathT y t"; cases "lookupT y t") auto
  then show ?thesis by (simp add: lookupT_None_iff)
qed

lemma pathT_removeNode_None:
  "pathT y t = None \<Longrightarrow> firstSome (map (pathT y) (removeNode x t)) = None"
proof -
  assume "pathT y t = None"
  then have n: "y \<notin> fst ` set (nodesT t)" by (simp add: pathT_None_iff)
  show ?thesis
    unfolding firstSome_None_iff
  proof
    fix r assume "r \<in> set (map (pathT y) (removeNode x t))"
    then obtain k where k: "k \<in> set (removeNode x t)" "r = pathT y k" by auto
    have "set (nodesT k) \<subseteq> set (nodes (removeNode x t))" using k(1) by (auto simp: nodes_def)
    with nodesT_removeNode_subset [of x t] n have "y \<notin> fst ` set (nodesT k)" by auto
    with k(2) show "r = None" by (simp add: pathT_None_iff)
  qed
qed

lemma pathT_removeNode:
  "pathT y t = Some path \<Longrightarrow> x \<notin> fst ` set path \<Longrightarrow>
     firstSome (map (pathT y) (removeNode x t)) = Some path"
proof (induction t arbitrary: path)
  case (Elem j p ks)
  show ?case
  proof (cases "y = j")
    case True
    with Elem.prems show ?thesis by auto
  next
    case False
    with Elem.prems obtain c where c: "firstSome (map (pathT y) ks) = Some c" "path = c @ [(j, p)]"
      by (auto split: option.splits)
    with Elem.prems(2) have xj: "x \<noteq> j" and xc: "x \<notin> fst ` set c" by auto
    have "firstSome (map (pathT y) (concat (map (removeNode x) ks))) =
        firstSome (map (\<lambda>k. firstSome (map (pathT y) (removeNode x k))) ks)"
      unfolding firstSome_concat map_map comp_def ..
    also have "\<dots> = Some c"
    proof (rule firstSome_map_transfer [OF c(1)])
      fix k assume "k \<in> set ks" "pathT y k = None"
      then show "firstSome (map (pathT y) (removeNode x k)) = None"
        by (simp add: pathT_removeNode_None)
    next
      fix k assume "k \<in> set ks" "pathT y k = Some c"
      with Elem.IH xc show "firstSome (map (pathT y) (removeNode x k)) = Some c" by blast
    qed
    finally show ?thesis
      using False xj c(2) by simp
  qed
qed

lemma pathTo_removeNode:
  assumes "pathTo y ts = Some path" and "x \<notin> fst ` set path"
  shows "pathTo y (concat (map (removeNode x) ts)) = Some path"
proof -
  have "firstSome (map (pathT y) (concat (map (removeNode x) ts))) =
      firstSome (map (\<lambda>k. firstSome (map (pathT y) (removeNode x k))) ts)"
    unfolding firstSome_concat map_map comp_def ..
  also have "\<dots> = Some path"
  proof (rule firstSome_map_transfer [OF assms(1) [unfolded pathTo_def]])
    fix k assume "k \<in> set ts" "pathT y k = None"
    then show "firstSome (map (pathT y) (removeNode x k)) = None"
      by (simp add: pathT_removeNode_None)
  next
    fix k assume "k \<in> set ts" "pathT y k = Some path"
    with assms(2) show "firstSome (map (pathT y) (removeNode x k)) = Some path"
      by (simp add: pathT_removeNode)
  qed
  finally show ?thesis by (simp add: pathTo_def)
qed

lemma distinct_removeNodeT:
  "distinct (map fst (nodesT t)) \<Longrightarrow> distinct (map fst (nodes (removeNode x t)))"
proof (induction t)
  case (Elem j p ks)
  show ?case
  proof (cases "j = x")
    case True
    then show ?thesis by simp
  next
    case False
    have dks: "distinct (concat (map (\<lambda>t. map fst (nodesT t)) ks))"
      and jks: "j \<notin> set (concat (map (\<lambda>t. map fst (nodesT t)) ks))"
      using Elem.prems(1) unfolding ids_nodesT by simp_all
    define z where "z = freshId ks"
    have zks: "z \<notin> set (concat (map (\<lambda>t. map fst (nodesT t)) ks))"
      using freshId_fresh [of ks] unfolding z_def set_map [symmetric] ids_nodes .
    have each: "distinct (map fst (nodes (removeNode x k))) \<and>
          set (map fst (nodes (removeNode x k))) \<subseteq> set (map fst (nodesT k)) \<union> {z} \<and>
          (z \<in> set (map fst (nodes (removeNode x k))) \<longrightarrow> z \<in> set (map fst (nodesT k)))"
      if k: "k \<in> set ks" for k
    proof -
      from dks k have dk: "distinct (map fst (nodesT k))" by (auto simp: distinct_concat_iff)
      have 1: "distinct (map fst (nodes (removeNode x k)))" by (rule Elem.IH [OF k dk])
      have 2: "set (map fst (nodes (removeNode x k))) \<subseteq> set (map fst (nodesT k))"
        using nodesT_removeNode_subset [of x k] by auto
      from 1 2 show ?thesis by blast
    qed
    have d': "distinct (concat (map (\<lambda>t. map fst (nodes (removeNode x t))) ks))"
      by (rule distinct_concat_map_fresh [OF dks zks each])
    have sub: "set (concat (map (\<lambda>t. map fst (nodes (removeNode x t))) ks))
        \<subseteq> set (concat (map (\<lambda>t. map fst (nodesT t)) ks))"
    proof
      fix y
      assume "y \<in> set (concat (map (\<lambda>t. map fst (nodes (removeNode x t))) ks))"
      then obtain k where k: "k \<in> set ks" "y \<in> set (map fst (nodes (removeNode x k)))" by auto
      with nodesT_removeNode_subset [of x k] have "y \<in> set (map fst (nodesT k))" by auto
      with k(1) show "y \<in> set (concat (map (\<lambda>t. map fst (nodesT t)) ks))" by auto
    qed
    have "map fst (nodes (removeNode x (Elem j p ks))) =
        j # map fst (nodes (concat (map (removeNode x) ks)))"
      using False by (simp add: nodes_def)
    then have "map fst (nodes (removeNode x (Elem j p ks))) =
        j # concat (map (\<lambda>t. map fst (nodes (removeNode x t))) ks)"
      unfolding ids_nodes_concat .
    with d' sub jks show ?thesis by auto
  qed
qed

lemma distinct_removeNode:
  assumes "distinct (map fst (nodes ts))"
  shows "distinct (map fst (nodes (concat (map (removeNode x) ts))))"
proof -
  have dts: "distinct (concat (map (\<lambda>t. map fst (nodesT t)) ts))"
    using assms unfolding ids_nodes .
  define z where "z = freshId ts"
  have zts: "z \<notin> set (concat (map (\<lambda>t. map fst (nodesT t)) ts))"
    using freshId_fresh [of ts] unfolding z_def set_map [symmetric] ids_nodes .
  have each: "distinct (map fst (nodes (removeNode x k))) \<and>
        set (map fst (nodes (removeNode x k))) \<subseteq> set (map fst (nodesT k)) \<union> {z} \<and>
        (z \<in> set (map fst (nodes (removeNode x k))) \<longrightarrow> z \<in> set (map fst (nodesT k)))"
    if k: "k \<in> set ts" for k
  proof -
    from dts k have dk: "distinct (map fst (nodesT k))" by (auto simp: distinct_concat_iff)
    have 1: "distinct (map fst (nodes (removeNode x k)))" by (rule distinct_removeNodeT [OF dk])
    have 2: "set (map fst (nodes (removeNode x k))) \<subseteq> set (map fst (nodesT k))"
      using nodesT_removeNode_subset [of x k] by auto
    from 1 2 show ?thesis by blast
  qed
  have "distinct (concat (map (\<lambda>t. map fst (nodes (removeNode x t))) ts))"
    by (rule distinct_concat_map_fresh [OF dts zts each])
  moreover have "map fst (nodes (concat (map (removeNode x) ts))) =
      concat (map (\<lambda>t. map fst (nodes (removeNode x t))) ts)"
    by (rule ids_nodes_concat)
  ultimately show ?thesis by simp
qed

text \<open>Queries after a write that keeps the classes.\<close>

lemma matches_onNode:
  "keepsClass c g \<Longrightarrow> matches c (onNode j g kp) = matches c kp"
  by (simp add: keepsClass_def matches_def onNode_def)

lemma find_matches_onNode:
  "keepsClass c g \<Longrightarrow>
     map_option fst (find (matches c) (map (onNode j g) xs)) = map_option fst (find (matches c) xs)"
  by (induction xs) (simp_all add: matches_onNode)

lemma matches_comp_onNode:
  "keepsClass c g \<Longrightarrow> matches c \<circ> onNode j g = matches c"
  by (rule ext) (simp add: matches_onNode)

lemma filter_matches_onNode:
  "keepsClass c g \<Longrightarrow>
     length (filter (matches c) (map (onNode j g) xs)) = length (filter (matches c) xs)"
  by (induction xs) (simp_all add: matches_onNode)

lemma closest_updateProps:
  "keepsClass c g \<Longrightarrow> closest c i (map (updateProps j g) ts) = closest c i ts"
  by (cases "pathTo i ts") (simp_all add: closest_def pathTo_updateProps find_matches_onNode)

lemma parentNode_updateProps:
  "parentNode i (map (updateProps j g) ts) = parentNode i ts"
proof (cases "pathTo i ts")
  case None
  then show ?thesis by (simp add: parentNode_def pathTo_updateProps)
next
  case (Some path)
  then show ?thesis
    by (cases path; cases "tl path") (auto simp: parentNode_def pathTo_updateProps)
qed

lemma querySelector_updateProps:
  "keepsClass c g \<Longrightarrow> querySelector c w (map (updateProps j g) ts) = querySelector c w ts"
  by (cases "lookup w ts")
    (simp_all add: querySelector_def lookup_updateProps nodes_updateProps find_matches_onNode)

lemma overlaysIn_updateProps:
  "keepsClass NOISE_OVERLAY_CLASS g \<Longrightarrow> overlaysIn w (map (updateProps j g) ts) = overlaysIn w ts"
  by (cases "lookup w ts")
    (simp_all add: overlaysIn_def lookup_updateProps nodes_updateProps filter_map
      matches_comp_onNode)

lemma overlaysOnPage_updateProps:
  "keepsClass NOISE_OVERLAY_CLASS g \<Longrightarrow>
     overlaysOnPage (map (updateProps j g) ts) = overlaysOnPage ts"
  by (simp add: overlaysOnPage_def nodes_updateProps filter_map matches_comp_onNode)

lemma distinct_updateProps:
  "distinct (map fst (nodes (map (updateProps j g) ts))) = distinct (map fst (nodes ts))"
  by (simp add: nodes_updateProps comp_def)

lemma keepsClass_attributes [simp]:
  "keepsClass c (\<lambda>p. p\<lparr>attributes := f (attributes p)\<rparr>)"
  by (simp add: keepsClass_def)

lemma keepsClass_overlayStyle [simp]: "keepsClass c (overlayStyle s)"
  by (simp add: keepsClass_def overlayStyle_def)



lemma getAttribute_setAttribute:
  "lookup i ts = Some e \<Longrightarrow> getAttribute i k (setAttribute i k v ts) = Some v"
  by (simp add: getAttribute_def setAttribute_def lookup_updateProps eprops_updateProps
      lookup_eid update_Some_unfold)


section \<open>Facts about the overlay manager\<close>

lemma lookup_Some_iff: "(\<exists>e. lookup i ts = Some e) \<longleftrightarrow> i \<in> fst ` set (nodes ts)"
  using lookup_None_iff [of i ts] by (cases "lookup i ts") auto

lemma closest_on_path:
  "closest c i ts = Some w \<Longrightarrow>
     \<exists>path p. pathTo i ts = Some path \<and> (w, p) \<in> set path \<and> matches c (w, p)"
proof -
  assume a: "closest c i ts = Some w"
  then obtain path where path: "pathTo i ts = Some path"
    by (cases "pathTo i ts") (auto simp: closest_def)
  with a obtain kp where kp: "find (matches c) path = Some kp" "fst kp = w"
    by (cases "find (matches c) path") (auto simp: closest_def)
  then have "kp \<in> set path" "matches c kp"
    by (auto simp: find_Some_iff)
  with path kp(2) show ?thesis by (cases kp) auto
qed

lemma closest_lookup: "closest c i ts = Some w \<Longrightarrow> \<exists>e. lookup w ts = Some e"
proof -
  assume "closest c i ts = Some w"
  from closest_on_path [OF this] obtain path p where
    "pathTo i ts = Some path" "(w, p) \<in> set path" by blast
  with pathTo_subset [of i ts path] have "w \<in> fst ` set (nodes ts)" by force
  then show ?thesis by (simp add: lookup_Some_iff)
qed

lemma closest_None_path:
  "closest c i ts = None \<Longrightarrow> pathTo i ts = Some path \<Longrightarrow> \<forall>kp\<in>set path. \<not> matches c kp"
  by (auto simp: closest_def find_None_iff)

lemma matches_wrapper [simp]:
  "matches NOISE_WRAPPER_CLASS (w, (createElement t)\<lparr>classList := [NOISE_WRAPPER_CLASS]\<rparr>)"
  by (simp add: matches_def createElement_def)

lemma not_overlay_wrapper [simp]:
  "\<not> matches NOISE_OVERLAY_CLASS (w, (createElement t)\<lparr>classList := [NOISE_WRAPPER_CLASS]\<rparr>)"
  by (simp add: matches_def createElement_def NOISE_OVERLAY_CLASS_def NOISE_WRAPPER_CLASS_def)

lemma matches_createOverlay [simp]: "matches NOISE_OVERLAY_CLASS (x, createOverlay s)"
  by (simp add: matches_def createOverlay_def overlayStyle_def createElement_def)

text \<open>The new wrapper of a node that had none.\<close>

lemma wrapped_closest:
  assumes "lookup i ts = Some e" and "closest NOISE_WRAPPER_CLASS i ts = None"
    and "w \<notin> fst ` set (nodes ts)"
  shows "closest NOISE_WRAPPER_CLASS i
           (map (wrapNode i w ((createElement t)\<lparr>classList := [NOISE_WRAPPER_CLASS]\<rparr>)) ts) = Some w"
proof -
  from pathTo_lookup [OF assms(1)] obtain rest where
    path: "pathTo i ts = Some ((i, eprops e) # rest)" by blast
  from assms(1) have "i \<in> fst ` set (nodes ts)" using lookup_Some_iff by blast
  with assms(3) have iw: "i \<noteq> w" by auto
  from closest_None_path [OF assms(2) path]
  have "\<not> matches NOISE_WRAPPER_CLASS (i, eprops e)" by simp
  then show ?thesis
    by (simp add: closest_def pathTo_wrapNode_self [OF iw] path)
qed

lemma wrapped_lookup:
  assumes "lookup i ts = Some e" and "w \<notin> fst ` set (nodes ts)"
  shows "lookup w (map (wrapNode i w wp) ts) = Some (Elem w wp [e])"
  by (simp add: lookup_wrapNode_wrapper [OF assms(2)] assms(1))

text \<open>A new overlay appended to a wrapper.\<close>

lemma appended_lookup:
  assumes "distinct (map fst (nodes ts))" and "lookup w ts = Some e" and "z \<notin> fst ` set (nodes ts)"
  shows "lookup w (map (appendChild w (Elem z cp [])) ts) =
           Some (Elem w (eprops e) (kids e @ [Elem z cp []]))"
proof -
  from lookup_eid [OF assms(2)] obtain p ks where e: "e = Elem w p ks" by (cases e) auto
  from assms(2) have "w \<in> fst ` set (nodes ts)" using lookup_Some_iff by blast
  with assms(3) have wz: "w \<noteq> z" by auto
  from lookup_distinct [OF assms(2) assms(1)] have "distinct (map fst (nodesT e))" .
  then have "w \<notin> set (concat (map (\<lambda>t. map fst (nodesT t)) ks))"
    unfolding e ids_nodesT by simp
  then have "\<forall>k\<in>set ks. w \<notin> fst ` set (nodesT k)" by auto
  then have "map (appendChild w (Elem z cp [])) ks = ks"
    by (intro map_idI) (simp add: appendChild_absent)
  moreover have "lookupT w (Elem z cp []) = None" using wz by simp
  ultimately show ?thesis
    by (simp add: lookup_appendChild assms(2) e)
qed

lemma appended_overlaysIn:
  assumes "distinct (map fst (nodes ts))" and "lookup w ts = Some e" and "z \<notin> fst ` set (nodes ts)"
    and "matches NOISE_OVERLAY_CLASS (z, cp)"
  shows "overlaysIn w (map (appendChild w (Elem z cp [])) ts) = Suc (overlaysIn w ts)"
  using assms(4)
  by (simp add: overlaysIn_def appended_lookup [OF assms(1,2,3)] assms(2))

lemma find_snoc:
  "find P xs = None \<Longrightarrow> P y \<Longrightarrow> find P (xs @ [y]) = Some y"
  by (induction xs) (auto split: if_splits)

lemma appended_querySelector:
  assumes "distinct (map fst (nodes ts))" and "lookup w ts = Some e" and "z \<notin> fst ` set (nodes ts)"
    and "matches NOISE_OVERLAY_CLASS (z, cp)"
    and "querySelector NOISE_OVERLAY_CLASS w ts = None"
  shows "querySelector NOISE_OVERLAY_CLASS w (map (appendChild w (Elem z cp [])) ts) = Some z"
proof -
  from assms(5,2) have "find (matches NOISE_OVERLAY_CLASS) (nodes (kids e)) = None"
    by (simp add: querySelector_def)
  then have "find (matches NOISE_OVERLAY_CLASS) (nodes (kids e) @ [(z, cp)]) = Some (z, cp)"
    using assms(4) by (rule find_snoc)
  then show ?thesis
    by (simp add: querySelector_def appended_lookup [OF assms(1,2,3)])
qed

lemma appended_closest:
  "i \<noteq> z \<Longrightarrow> closest c i (map (appendChild w (Elem z cp [])) ts) = closest c i ts"
  by (simp add: closest_def pathTo_appendChild)


lemma doApply_ensureOverlay:
  "doApply s i =
     (case ensureWrapper (document s) i of
        (None, ts) \<Rightarrow> s
      | (Some w, ts) \<Rightarrow> s\<lparr>document := ensureOverlay False s i w ts\<rparr>)"
  by (auto simp: doApply_def ensureOverlay_def Let_def split: prod.splits option.splits)

lemma doApply_selection_ensureOverlay:
  "doApply_selection s i =
     (case ensureWrapper (document s) i of
        (None, ts) \<Rightarrow> s
      | (Some w, ts) \<Rightarrow> s\<lparr>document := ensureOverlay True s i w ts\<rparr>)"
  by (auto simp: doApply_selection_def ensureOverlay_def Let_def split: prod.splits option.splits)

lemma querySelector_overlaysIn:
  "querySelector NOISE_OVERLAY_CLASS w ts = None \<Longrightarrow> overlaysIn w ts = 0"
  "querySelector NOISE_OVERLAY_CLASS w ts = Some x \<Longrightarrow> 0 < overlaysIn w ts"
proof -
  show "querySelector NOISE_OVERLAY_CLASS w ts = None \<Longrightarrow> overlaysIn w ts = 0"
    by (cases "lookup w ts")
      (auto simp: querySelector_def overlaysIn_def find_None_iff filter_empty_conv)
  show "querySelector NOISE_OVERLAY_CLASS w ts = Some x \<Longrightarrow> 0 < overlaysIn w ts"
    by (cases "lookup w ts")
      (auto simp: querySelector_def overlaysIn_def find_Some_iff filter_empty_conv)
qed

lemma eprops_appendChild [simp]: "eprops (appendChild w c e) = eprops e"
  by (cases e) simp

lemma loaded_setAttribute:
  "loadedElement i (setAttribute j k v ts) = loadedElement i ts"
  by (cases "lookup i ts")
    (simp_all add: loadedElement_def setAttribute_def lookup_updateProps eprops_updateProps)

lemma loaded_overlayStyle:
  "loadedElement i (map (updateProps j (overlayStyle s)) ts) = loadedElement i ts"
  by (cases "lookup i ts")
    (simp_all add: loadedElement_def lookup_updateProps eprops_updateProps overlayStyle_def)

lemma loaded_appendChild:
  "i \<noteq> z \<Longrightarrow> loadedElement i (map (appendChild w (Elem z cp [])) ts) = loadedElement i ts"
  by (cases "lookup i ts") (simp_all add: loadedElement_def lookup_appendChild)

lemma setAttribute_frame:
  "closest c i (setAttribute j k v ts) = closest c i ts"
  "parentNode i (setAttribute j k v ts) = parentNode i ts"
  "querySelector c w (setAttribute j k v ts) = querySelector c w ts"
  "overlaysIn w (setAttribute j k v ts) = overlaysIn w ts"
  "overlaysOnPage (setAttribute j k v ts) = overlaysOnPage ts"
  "distinct (map fst (nodes (setAttribute j k v ts))) = distinct (map fst (nodes ts))"
  unfolding setAttribute_def
  by (simp_all add: closest_updateProps parentNode_updateProps querySelector_updateProps
      overlaysIn_updateProps overlaysOnPage_updateProps distinct_updateProps)


lemma restyle_frame:
  "closest c i (map (updateProps j (overlayStyle s)) ts) = closest c i ts"
  "querySelector c w (map (updateProps j (overlayStyle s)) ts) = querySelector c w ts"
  "overlaysIn w (map (updateProps j (overlayStyle s)) ts) = overlaysIn w ts"
  "overlaysOnPage (map (updateProps j (overlayStyle s)) ts) = overlaysOnPage ts"
  by (simp_all add: closest_updateProps querySelector_updateProps
      overlaysIn_updateProps overlaysOnPage_updateProps)

lemma lookup_setAttribute:
  "lookup i (setAttribute j k v ts) = None \<longleftrightarrow> lookup i ts = None"
  by (simp add: setAttribute_def lookup_updateProps)

lemma ensureOverlay_result:
  assumes wf: "distinct (map fst (nodes ts))"
    and cl: "closest NOISE_WRAPPER_CLASS i ts = Some w"
    and e: "lookup i ts = Some e"
    and few: "overlaysIn w ts \<le> 1"
  shows "closest NOISE_WRAPPER_CLASS i (ensureOverlay r s i w ts) = Some w"
    and "overlaysIn w (ensureOverlay r s i w ts) = 1"
    and "distinct (map fst (nodes (ensureOverlay r s i w ts)))"
    and "getAttribute i NOISE_APPLIED_ATTR (ensureOverlay r s i w ts) = Some ''true''"
    and "loadedElement i (ensureOverlay r s i w ts) = loadedElement i ts"
proof -
  from closest_lookup [OF cl] obtain ew where ew: "lookup w ts = Some ew" by blast
  have fresh: "freshId ts \<notin> fst ` set (nodes ts)" by (rule freshId_fresh)
  from e have "i \<in> fst ` set (nodes ts)" using lookup_Some_iff [of i ts] by blast
  with fresh have iz: "i \<noteq> freshId ts" by blast
  let ?ov = "Elem (freshId ts) (createOverlay s) []"
  show "closest NOISE_WRAPPER_CLASS i (ensureOverlay r s i w ts) = Some w"
    using cl iz
    by (auto simp: ensureOverlay_def setAttribute_frame restyle_frame appended_closest
        split: option.splits)
  show "overlaysIn w (ensureOverlay r s i w ts) = 1"
  proof (cases "querySelector NOISE_OVERLAY_CLASS w ts")
    case None
    from querySelector_overlaysIn(1) [OF None] have "overlaysIn w ts = 0" .
    with None appended_overlaysIn [OF wf ew fresh matches_createOverlay, of s] show ?thesis
      by (simp add: ensureOverlay_def setAttribute_frame)
  next
    case (Some x)
    from querySelector_overlaysIn(2) [OF Some] few have "overlaysIn w ts = 1" by simp
    with Some show ?thesis
      by (simp add: ensureOverlay_def setAttribute_frame restyle_frame)
  qed
  show "distinct (map fst (nodes (ensureOverlay r s i w ts)))"
    using wf distinct_appendChild [OF wf fresh, of w "createOverlay s"]
    by (auto simp: ensureOverlay_def setAttribute_frame distinct_updateProps split: option.splits)
  have "\<exists>e'. lookup i (case querySelector NOISE_OVERLAY_CLASS w ts of
          Some existing \<Rightarrow>
            if r then map (updateProps existing (overlayStyle s)) ts else ts
        | None \<Rightarrow> map (appendChild w ?ov) ts) = Some e'"
    using e iz by (auto simp: lookup_updateProps lookup_appendChild split: option.splits)
  then show "getAttribute i NOISE_APPLIED_ATTR (ensureOverlay r s i w ts) = Some ''true''"
    unfolding ensureOverlay_def by (auto intro: getAttribute_setAttribute)
  show "loadedElement i (ensureOverlay r s i w ts) = loadedElement i ts"
    using iz
    by (auto simp: ensureOverlay_def loaded_setAttribute loaded_overlayStyle loaded_appendChild
        split: option.splits)
qed

lemma lookup_props_loaded:
  "lookup i ts = Some e \<Longrightarrow> lookup i ts' = Some e' \<Longrightarrow> eprops e' = eprops e \<Longrightarrow>
     loadedElement i ts' = loadedElement i ts"
  by (simp add: loadedElement_def)

lemma ensureWrapper_result:
  assumes wf: "distinct (map fst (nodes ts))"
    and e: "lookup i ts = Some e"
    and att: "attached i ts"
  shows "\<exists>w ts1 e1. ensureWrapper ts i = (Some w, ts1)
           \<and> distinct (map fst (nodes ts1))
           \<and> closest NOISE_WRAPPER_CLASS i ts1 = Some w
           \<and> lookup i ts1 = Some e1
           \<and> loadedElement i ts1 = loadedElement i ts
           \<and> overlaysIn w ts1 = scopeOverlays i ts"
proof (cases "closest NOISE_WRAPPER_CLASS i ts")
  case (Some w)
  then show ?thesis
    using wf e by (simp add: ensureWrapper_def scopeOverlays_def)
next
  case None
  with att obtain par where par: "parentNode i ts = Some par"
    by (auto simp: attached_def)
  let ?w = "freshId ts"
  let ?wp = "(createElement ''span'')\<lparr>classList := [NOISE_WRAPPER_CLASS]\<rparr>"
  let ?ts1 = "map (wrapNode i ?w ?wp) ts"
  have fresh: "?w \<notin> fst ` set (nodes ts)" by (rule freshId_fresh)
  from e have "i \<in> fst ` set (nodes ts)" using lookup_Some_iff [of i ts] by blast
  with fresh have iw: "i \<noteq> ?w" by blast
  have ew: "ensureWrapper ts i = (Some ?w, ?ts1)"
    using None par by (simp add: ensureWrapper_def Let_def)
  have d: "distinct (map fst (nodes ?ts1))"
    using wf fresh by (rule distinct_wrapNode)
  have c: "closest NOISE_WRAPPER_CLASS i ?ts1 = Some ?w"
    using e None fresh by (rule wrapped_closest)
  from pathTo_lookup [OF e] obtain rest where rest: "pathTo i ts = Some ((i, eprops e) # rest)"
    by blast
  have "pathTo i ?ts1 = Some ((i, eprops e) # (?w, ?wp) # rest)"
    using pathTo_wrapNode_self [OF iw, of ?wp ts] rest by simp
  from lookup_pathTo [OF this] obtain e1 where e1: "lookup i ?ts1 = Some e1" "eprops e1 = eprops e"
    by blast
  have l: "loadedElement i ?ts1 = loadedElement i ts"
    using e e1 by (rule lookup_props_loaded)
  have "lookup ?w ?ts1 = Some (Elem ?w ?wp [e])"
    using e fresh by (rule wrapped_lookup)
  then have o: "overlaysIn ?w ?ts1 = scopeOverlays i ts"
    using None e by (simp add: overlaysIn_def scopeOverlays_def)
  from ew d c e1(1) l o show ?thesis by blast
qed

lemma updateProps_commute:
  "f \<circ> g = g \<circ> f \<Longrightarrow>
     updateProps j g (updateProps k f t) = updateProps k f (updateProps j g t)"
proof (induction t)
  case (Elem l p ks)
  have "map (updateProps j g \<circ> updateProps k f) ks = map (updateProps k f \<circ> updateProps j g) ks"
    using Elem by (intro map_cong) auto
  with Elem.prems show ?case by (auto simp: fun_eq_iff)
qed

lemma updateProps_idem:
  "g \<circ> g = g \<Longrightarrow> updateProps j g (updateProps j g t) = updateProps j g t"
  by (simp add: updateProps_comp)

lemma overlayStyle_idem: "overlayStyle s \<circ> overlayStyle s = overlayStyle s"
  by (simp add: fun_eq_iff overlayStyle_def)

lemma overlayStyle_createOverlay: "overlayStyle s (createOverlay s) = createOverlay s"
  by (simp add: createOverlay_def overlayStyle_def)

lemma setAttribute_idem: "setAttribute i k v (setAttribute i k v ts) = setAttribute i k v ts"
proof -
  have "(\<lambda>p. p\<lparr>attributes := AList.update k v (attributes p)\<rparr>) \<circ>
        (\<lambda>p. p\<lparr>attributes := AList.update k v (attributes p)\<rparr>) =
        (\<lambda>p::props. p\<lparr>attributes := AList.update k v (attributes p)\<rparr>)"
    by (simp add: fun_eq_iff)
  then show ?thesis
    by (simp add: setAttribute_def updateProps_idem)
qed

lemma restyle_idem:
  "map (updateProps x (overlayStyle s)) (map (updateProps x (overlayStyle s)) ts) =
     map (updateProps x (overlayStyle s)) ts"
  by (simp add: updateProps_idem overlayStyle_idem)

lemma restyle_setAttribute:
  "map (updateProps x (overlayStyle s)) (setAttribute i k v ts) =
     setAttribute i k v (map (updateProps x (overlayStyle s)) ts)"
proof -
  have "(\<lambda>p. p\<lparr>attributes := AList.update k v (attributes p)\<rparr>) \<circ> overlayStyle s =
        overlayStyle s \<circ> (\<lambda>p. p\<lparr>attributes := AList.update k v (attributes p)\<rparr>)"
    by (simp add: fun_eq_iff overlayStyle_def)
  then show ?thesis
    by (simp add: setAttribute_def updateProps_commute)
qed

lemma restyle_appended:
  assumes "z \<notin> fst ` set (nodes ts)"
  shows "map (updateProps z (overlayStyle s)) (map (appendChild w (Elem z (createOverlay s) [])) ts) =
         map (appendChild w (Elem z (createOverlay s) [])) ts"
proof (rule map_idI)
  fix t assume t: "t \<in> set (map (appendChild w (Elem z (createOverlay s) [])) ts)"
  show "updateProps z (overlayStyle s) t = t"
  proof (rule updateProps_id, rule ballI, rule impI)
    fix kp assume kp: "kp \<in> set (nodesT t)" "fst kp = z"
    from kp(1) t have "kp \<in> set (nodes (map (appendChild w (Elem z (createOverlay s) [])) ts))"
      by (auto simp: nodes_def)
    with nodes_appendChild_subset [of w "Elem z (createOverlay s) []" ts]
    have "kp \<in> set (nodes ts) \<or> kp = (z, createOverlay s)" by auto
    with kp(2) assms have "kp = (z, createOverlay s)" by (auto simp: image_iff)
    then show "overlayStyle s (snd kp) = snd kp" by (simp add: overlayStyle_createOverlay)
  qed
qed

lemma ensureOverlay_idem:
  assumes wf: "distinct (map fst (nodes ts))"
    and cl: "closest NOISE_WRAPPER_CLASS i ts = Some w"
  shows "ensureOverlay True s i w (ensureOverlay True s i w ts) = ensureOverlay True s i w ts"
proof -
  from closest_lookup [OF cl] obtain ew where ew: "lookup w ts = Some ew" by blast
  have fresh: "freshId ts \<notin> fst ` set (nodes ts)" by (rule freshId_fresh)
  let ?ov = "Elem (freshId ts) (createOverlay s) []"
  show ?thesis
  proof (cases "querySelector NOISE_OVERLAY_CLASS w ts")
    case None
    have D: "ensureOverlay True s i w ts =
        setAttribute i NOISE_APPLIED_ATTR ''true'' (map (appendChild w ?ov) ts)"
      using None by (simp add: ensureOverlay_def)
    have q: "querySelector NOISE_OVERLAY_CLASS w (ensureOverlay True s i w ts) = Some (freshId ts)"
      unfolding D setAttribute_frame
      using wf ew fresh matches_createOverlay None by (rule appended_querySelector)
    have "ensureOverlay True s i w (ensureOverlay True s i w ts) =
        setAttribute i NOISE_APPLIED_ATTR ''true''
          (map (updateProps (freshId ts) (overlayStyle s)) (ensureOverlay True s i w ts))"
      using q by (simp add: ensureOverlay_def [of True s i w "ensureOverlay True s i w ts"])
    also have "\<dots> = ensureOverlay True s i w ts"
      unfolding D restyle_setAttribute restyle_appended [OF fresh] setAttribute_idem ..
    finally show ?thesis .
  next
    case (Some x)
    have D: "ensureOverlay True s i w ts =
        setAttribute i NOISE_APPLIED_ATTR ''true'' (map (updateProps x (overlayStyle s)) ts)"
      using Some by (simp add: ensureOverlay_def)
    have q: "querySelector NOISE_OVERLAY_CLASS w (ensureOverlay True s i w ts) = Some x"
      unfolding D setAttribute_frame restyle_frame by (rule Some)
    have "ensureOverlay True s i w (ensureOverlay True s i w ts) =
        setAttribute i NOISE_APPLIED_ATTR ''true''
          (map (updateProps x (overlayStyle s)) (ensureOverlay True s i w ts))"
      using q by (simp add: ensureOverlay_def [of True s i w "ensureOverlay True s i w ts"])
    also have "\<dots> = ensureOverlay True s i w ts"
      unfolding D restyle_setAttribute restyle_idem setAttribute_idem ..
    finally show ?thesis .
  qed
qed

lemma overlayStyle_state [simp]: "overlayStyle (s\<lparr>document := ts'\<rparr>) = overlayStyle s"
  by (simp add: overlayStyle_def fun_eq_iff)

lemma createOverlay_state [simp]: "createOverlay (s\<lparr>document := ts'\<rparr>) = createOverlay s"
  by (simp add: createOverlay_def)

lemma ensureOverlay_state [simp]:
  "ensureOverlay r (s\<lparr>document := ts'\<rparr>) i w ts = ensureOverlay r s i w ts"
  by (simp add: ensureOverlay_def split: option.splits)

lemma ensureWrapper_existing:
  "closest NOISE_WRAPPER_CLASS i ts = Some w \<Longrightarrow> ensureWrapper ts i = (Some w, ts)"
  by (simp add: ensureWrapper_def)

lemma funpow_fixed: "f (f x) = f x \<Longrightarrow> (f ^^ Suc n) x = f x"
  by (induction n) simp_all

section \<open>Applying noise to an image\<close>

lemma applyNoise_marked:
  "getAttribute i NOISE_APPLIED_ATTR (document s) = Some ''true'' \<Longrightarrow> applyNoise s i = s"
  by (simp add: applyNoise_def split: option.splits)

lemma applyNoise_loaded:
  "loadedElement i (document s) \<Longrightarrow>
     getAttribute i NOISE_APPLIED_ATTR (document s) \<noteq> Some ''true'' \<Longrightarrow>
     applyNoise s i = doApply s i"
  by (auto simp: applyNoise_def loadedElement_def split: option.splits)

lemma applyNoise_selection_loaded:
  "loadedElement i (document s) \<Longrightarrow> applyNoise_selection s i = doApply_selection s i"
  by (auto simp: applyNoise_selection_def loadedElement_def split: option.splits)

lemma loadedElement_lookup: "loadedElement i ts \<Longrightarrow> \<exists>e. lookup i ts = Some e"
  by (simp add: loadedElement_def split: option.splits)

lemma scopeOverlays_wrapped:
  "closest NOISE_WRAPPER_CLASS i ts = Some w \<Longrightarrow> scopeOverlays i ts = overlaysIn w ts"
  by (simp add: scopeOverlays_def)

text \<open>
  What \<open>doApply\<close> of either script does to a loaded image that has a parent or a wrapper
  and at most one overlay in its scope.
\<close>

lemma applied_result:
  assumes wf: "distinct (map fst (nodes (document s)))"
    and ld: "loadedElement i (document s)"
    and att: "attached i (document s)"
    and few: "scopeOverlays i (document s) \<le> 1"
  shows "\<exists>w ts1. ensureWrapper (document s) i = (Some w, ts1)
           \<and> distinct (map fst (nodes ts1))
           \<and> closest NOISE_WRAPPER_CLASS i ts1 = Some w
           \<and> closest NOISE_WRAPPER_CLASS i (ensureOverlay r s i w ts1) = Some w
           \<and> scopeOverlays i (ensureOverlay r s i w ts1) = 1
           \<and> distinct (map fst (nodes (ensureOverlay r s i w ts1)))
           \<and> getAttribute i NOISE_APPLIED_ATTR (ensureOverlay r s i w ts1) = Some ''true''
           \<and> loadedElement i (ensureOverlay r s i w ts1)"
proof -
  from loadedElement_lookup [OF ld] obtain e where e: "lookup i (document s) = Some e" by blast
  from ensureWrapper_result [OF wf e att] obtain w ts1 e1 where
    ew: "ensureWrapper (document s) i = (Some w, ts1)"
    and d1: "distinct (map fst (nodes ts1))"
    and c1: "closest NOISE_WRAPPER_CLASS i ts1 = Some w"
    and e1: "lookup i ts1 = Some e1"
    and l1: "loadedElement i ts1 = loadedElement i (document s)"
    and o1: "overlaysIn w ts1 = scopeOverlays i (document s)"
    by blast
  from o1 few have few1: "overlaysIn w ts1 \<le> 1" by simp
  note r = ensureOverlay_result [OF d1 c1 e1 few1, of r s]
  have "scopeOverlays i (ensureOverlay r s i w ts1) = 1"
    using scopeOverlays_wrapped [OF r(1)] r(2) by simp
  moreover have "loadedElement i (ensureOverlay r s i w ts1)"
    using r(5) l1 ld by simp
  ultimately show ?thesis using ew d1 c1 r(1) r(3) r(4) by blast
qed

lemma doApply_again:
  assumes "closest NOISE_WRAPPER_CLASS i ts = Some w"
    and "distinct (map fst (nodes ts))"
  shows "doApply_selection (s\<lparr>document := ensureOverlay True s i w ts\<rparr>) i =
         s\<lparr>document := ensureOverlay True s i w ts\<rparr>"
proof -
  let ?D = "ensureOverlay True s i w ts"
  from closest_lookup [OF assms(1)] obtain ew where ew: "lookup w ts = Some ew" by blast
  have "closest NOISE_WRAPPER_CLASS i ?D = Some w"
  proof -
    have fresh: "freshId ts \<notin> fst ` set (nodes ts)" by (rule freshId_fresh)
    from assms(1) obtain path where "pathTo i ts = Some path"
      by (cases "pathTo i ts") (auto simp: closest_def)
    with pathTo_subset [of i ts] pathTo_nonempty [of i ts] have "i \<in> fst ` set (nodes ts)"
      by (metis lookup_None_iff pathTo_head option.map_disc_iff option.distinct(1))
    with fresh have iz: "i \<noteq> freshId ts" by blast
    show ?thesis
      using assms(1) iz
      by (auto simp: ensureOverlay_def setAttribute_frame restyle_frame appended_closest
          split: option.splits)
  qed
  then have "ensureWrapper ?D i = (Some w, ?D)" by (rule ensureWrapper_existing)
  then show ?thesis
    by (simp add: doApply_selection_ensureOverlay ensureOverlay_idem [OF assms(2) assms(1)])
qed

lemma examplePage_image:
  "distinct (map fst (nodes (document examplePage)))"
  "loadedElement 2 (document examplePage)"
  "attached 2 (document examplePage)"
  "scopeOverlays 2 (document examplePage) \<le> 1"
  "getAttribute 2 NOISE_APPLIED_ATTR (document examplePage) \<noteq> Some ''true''"
  by (simp_all add: examplePage_def exampleDocument_def exampleImage_def nodes_def
      loadedElement_def attached_def scopeOverlays_def getAttribute_def lookup_def
      parentNode_def closest_def pathTo_def matches_def createElement_def
      ELEMENT_NODE_def DOCUMENT_NODE_def NOISE_OVERLAY_CLASS_def NOISE_WRAPPER_CLASS_def)

lemma exampleOverlayPage_image:
  "distinct (map fst (nodes (document exampleOverlayPage)))"
  "loadedElement 2 (document exampleOverlayPage)"
  "attached 2 (document exampleOverlayPage)"
  "scopeOverlays 2 (document exampleOverlayPage) \<le> 1"
  "getAttribute 2 NOISE_APPLIED_ATTR (document exampleOverlayPage) = Some ''true''"
  by (simp_all add: exampleOverlayPage_def exampleImage_def nodes_def
      loadedElement_def attached_def scopeOverlays_def getAttribute_def lookup_def
      parentNode_def closest_def pathTo_def matches_def createElement_def overlaysIn_def
      ELEMENT_NODE_def DOCUMENT_NODE_def NOISE_OVERLAY_CLASS_def NOISE_WRAPPER_CLASS_def)

lemma exampleMarkedPage_image:
  "getAttribute 2 NOISE_APPLIED_ATTR (document exampleMarkedPage) = Some ''true''"
  "closest NOISE_WRAPPER_CLASS 2 (document exampleMarkedPage) = None"
  "parentNode 2 (document exampleMarkedPage) = Some 1"
  "overlaysOnPage (document exampleMarkedPage) = 0"
  "lookup 2 (document exampleMarkedPage) =
     Some (Elem 2 ((createElement ''img'')\<lparr>attributes := [(NOISE_APPLIED_ATTR, ''true'')],
                        isComplete := True, naturalWidth := 640, naturalHeight := 480\<rparr>) [])"
  "freshId (document exampleMarkedPage) = 4"
  by (simp_all add: exampleMarkedPage_def exampleImage_def nodes_def freshId_def
      getAttribute_def lookup_def overlaysOnPage_def
      parentNode_def closest_def pathTo_def matches_def createElement_def overlaysIn_def
      ELEMENT_NODE_def DOCUMENT_NODE_def NOISE_OVERLAY_CLASS_def NOISE_WRAPPER_CLASS_def)

lemma exampleMarkedPage_applied:
  "document (applyNoise_selection exampleMarkedPage 2) =
     [Elem 0 ((createElement ''#document'')\<lparr>nodeType := DOCUMENT_NODE\<rparr>)
        [Elem 1 (createElement ''body'')
           [Elem 4 ((createElement ''span'')\<lparr>classList := [NOISE_WRAPPER_CLASS]\<rparr>)
              [Elem 2 ((createElement ''img'')\<lparr>attributes := [(NOISE_APPLIED_ATTR, ''true'')],
                         isComplete := True, naturalWidth := 640, naturalHeight := 480\<rparr>) [],
               Elem 5 (createOverlay exampleMarkedPage) []],
            exampleImage 3]]]"
proof -
  have w: "ensureWrapper (document exampleMarkedPage) 2 =
      (Some 4, map (wrapNode 2 4 ((createElement ''span'')\<lparr>classList := [NOISE_WRAPPER_CLASS]\<rparr>))
                 (document exampleMarkedPage))"
    by (simp add: ensureWrapper_def exampleMarkedPage_image Let_def)
  have ts1: "map (wrapNode 2 4 ((createElement ''span'')\<lparr>classList := [NOISE_WRAPPER_CLASS]\<rparr>))
                 (document exampleMarkedPage) =
     [Elem 0 ((createElement ''#document'')\<lparr>nodeType := DOCUMENT_NODE\<rparr>)
        [Elem 1 (createElement ''body'')
           [Elem 4 ((createElement ''span'')\<lparr>classList := [NOISE_WRAPPER_CLASS]\<rparr>)
              [Elem 2 ((createElement ''img'')\<lparr>attributes := [(NOISE_APPLIED_ATTR, ''true'')],
                         isComplete := True, naturalWidth := 640, naturalHeight := 480\<rparr>) []],
            exampleImage 3]]]"
    by (simp add: exampleMarkedPage_def exampleImage_def)
  have l: "loadedElement 2 (document exampleMarkedPage)"
    by (simp add: loadedElement_def exampleMarkedPage_image createElement_def)
  show ?thesis
    unfolding applyNoise_selection_loaded [OF l] doApply_selection_def w ts1
    by (simp add: querySelector_def lookup_def nodes_def matches_def freshId_def
        exampleImage_def createElement_def setAttribute_def Let_def
        ELEMENT_NODE_def DOCUMENT_NODE_def NOISE_OVERLAY_CLASS_def NOISE_WRAPPER_CLASS_def
        NOISE_APPLIED_ATTR_def)
qed

section \<open>Facts about selection\<close>

lemma nodeProps_path: "nodeProps j ts = map_option (snd \<circ> hd) (pathTo j ts)"
proof -
  have "map_option snd (map_option hd (pathTo j ts)) =
        map_option snd (map_option (\<lambda>e. (eid e, eprops e)) (lookup j ts))"
    by (simp only: pathTo_head)
  then show ?thesis by (simp add: nodeProps_def option.map_comp comp_def)
qed

lemma nodeProps_wrapNode:
  assumes "j \<noteq> w"
  shows "nodeProps j (map (wrapNode i w wp) ts) = nodeProps j ts"
proof -
  from pathTo_wrapNode_other [OF assms, of wp ts i]
  have "rel_option (pathGrows (w, wp)) (pathTo j ts) (pathTo j (map (wrapNode i w wp) ts))" .
  then show ?thesis
    unfolding nodeProps_path
    by (cases "pathTo j ts"; cases "pathTo j (map (wrapNode i w wp) ts)")
      (simp_all add: pathGrows_def)
qed



lemma nodeProps_appendChild:
  "j \<noteq> z \<Longrightarrow> nodeProps j (map (appendChild w (Elem z cp [])) ts) = nodeProps j ts"
  by (simp add: nodeProps_path pathTo_appendChild)

lemma nodeProps_updateProps:
  "nodeProps j (map (updateProps i g) ts) =
     map_option (if j = i then g else (\<lambda>p. p)) (nodeProps j ts)"
  by (cases "lookup j ts")
    (auto simp: nodeProps_def lookup_updateProps eprops_updateProps dest: lookup_eid)

lemma loadedElement_nodeProps:
  "loadedElement i ts =
     (case nodeProps i ts of
        None \<Rightarrow> False
      | Some p \<Rightarrow> nodeType p = ELEMENT_NODE \<and> isComplete p \<and> 0 < naturalWidth p)"
  by (simp add: loadedElement_def nodeProps_def split: option.splits)

lemma getAttribute_nodeProps:
  "getAttribute i k ts =
     (case nodeProps i ts of None \<Rightarrow> None | Some p \<Rightarrow> map_of (attributes p) k)"
  by (simp add: getAttribute_def nodeProps_def split: option.splits)

text \<open>Counting the nodes that satisfy a predicate after a node got a new child.\<close>

lemma length_filter_concat:
  "length (filter P (concat xss)) = sum_list (map (\<lambda>xs. length (filter P xs)) xss)"
  by (induction xss) simp_all

lemma count_appendChildT:
  "length (filter P (nodesT (appendChild w c t))) =
     length (filter P (nodesT t))
       + length (filter (\<lambda>k. k = w) (map fst (nodesT t))) * length (filter P (nodesT c))"
proof (induction t)
  case (Elem j p ks)
  let ?a = "appendChild w c"
  let ?A = "\<lambda>k. length (filter P (nodesT k))"
  let ?B = "\<lambda>k. length (filter (\<lambda>k. k = w) (map fst (nodesT k)))"
  let ?C = "length (filter P (nodesT c))"
  have "sum_list (map (\<lambda>k. ?A (?a k)) ks) = sum_list (map (\<lambda>k. ?A k + ?B k * ?C) ks)"
    using Elem by (intro arg_cong [where f = sum_list] map_cong) auto
  also have "\<dots> = sum_list (map ?A ks) + sum_list (map ?B ks) * ?C"
    by (simp add: sum_list_addf sum_list_mult_const)
  finally have kids: "sum_list (map (\<lambda>k. ?A (?a k)) ks) =
      sum_list (map ?A ks) + sum_list (map ?B ks) * ?C" .
  have B: "length (filter (\<lambda>k. k = w) (concat (map (\<lambda>k. map fst (nodesT k)) ks))) =
      sum_list (map ?B ks)"
    by (simp add: length_filter_concat comp_def)
  show ?case
    using kids B
    by (simp add: length_filter_concat comp_def map_concat algebra_simps)
qed

lemma count_appendChild:
  "length (filter P (nodes (map (appendChild w c) ts))) =
     length (filter P (nodes ts))
       + length (filter (\<lambda>k. k = w) (map fst (nodes ts))) * length (filter P (nodesT c))"
proof (induction ts)
  case Nil
  show ?case by simp
next
  case (Cons t ts)
  then show ?case by (simp add: count_appendChildT algebra_simps)
qed

lemma count_distinct:
  "distinct xs \<Longrightarrow> w \<in> set xs \<Longrightarrow> length (filter (\<lambda>k. k = w) xs) = 1"
  by (induction xs) (auto simp: filter_empty_conv)

lemma appended_overlaysOnPage:
  assumes "distinct (map fst (nodes ts))" and "lookup w ts = Some e"
  shows "overlaysOnPage (map (appendChild w (Elem z (createOverlay s) [])) ts) =
         Suc (overlaysOnPage ts)"
proof -
  from assms(2) have "w \<in> set (map fst (nodes ts))"
    using lookup_Some_iff [of w ts] by auto
  with assms(1) have "length (filter (\<lambda>k. k = w) (map fst (nodes ts))) = 1"
    by (rule count_distinct)
  then show ?thesis
    by (simp add: overlaysOnPage_def count_appendChild)
qed





lemma ids_updateProps:
  "fst ` set (nodes (map (updateProps j g) ts)) = fst ` set (nodes ts)"
proof -
  have "map fst (nodes (map (updateProps j g) ts)) = map fst (nodes ts)"
    by (simp add: nodes_updateProps comp_def onNode_def)
  then have "set (map fst (nodes (map (updateProps j g) ts))) = set (map fst (nodes ts))"
    by simp
  then show ?thesis by (simp only: set_map)
qed

lemma selected_class_other [simp]:
  "NOISE_OVERLAY_CLASS \<noteq> SELECTED_CLASS" "NOISE_WRAPPER_CLASS \<noteq> SELECTED_CLASS"
  by (simp_all add: NOISE_OVERLAY_CLASS_def NOISE_WRAPPER_CLASS_def SELECTED_CLASS_def)



lemma attribute_ids:
  "fst ` set (nodes (setAttribute j k v ts)) = fst ` set (nodes ts)"
  "fst ` set (nodes (removeAttribute j k ts)) = fst ` set (nodes ts)"
  by (simp_all add: setAttribute_def removeAttribute_def ids_updateProps)

lemma nodeProps_writes:
  "j \<noteq> i \<Longrightarrow> nodeProps j (setAttribute i k v ts) = nodeProps j ts"
  "j \<noteq> i \<Longrightarrow> nodeProps j (removeAttribute i k ts) = nodeProps j ts"
  "j \<noteq> i \<Longrightarrow> nodeProps j (classList_add i c ts) = nodeProps j ts"
  "j \<noteq> i \<Longrightarrow> nodeProps j (classList_remove i c ts) = nodeProps j ts"
  by (simp_all add: setAttribute_def removeAttribute_def classList_add_def classList_remove_def
      nodeProps_updateProps option.map_ident)






lemma closest_node: "closest c i ts = Some w \<Longrightarrow> \<exists>e. lookup i ts = Some e"
proof -
  assume "closest c i ts = Some w"
  then obtain path where path: "pathTo i ts = Some path"
    by (cases "pathTo i ts") (auto simp: closest_def)
  with pathTo_head [of i ts] show ?thesis by (cases "lookup i ts") auto
qed




lemma notifySelectionChanged_fields [simp]:
  "document (notifySelectionChanged h x) = document x"
  "selectedImage (notifySelectionChanged h x) = selectedImage x"
  by (cases "runtimeSendMessage h"; simp add: notifySelectionChanged_def)+




lemma loaded_same_props:
  "nodeProps i ts' = nodeProps i ts \<Longrightarrow> loadedElement i ts' = loadedElement i ts"
  by (simp add: loadedElement_nodeProps)

lemma attribute_same_props:
  "nodeProps i ts' = nodeProps i ts \<Longrightarrow> getAttribute i k ts' = getAttribute i k ts"
  by (simp add: getAttribute_nodeProps)



section \<open>One application of noise, in general\<close>

lemma doApply_doApplyWith: "doApply s i = doApplyWith False s i"
  by (simp add: doApply_ensureOverlay doApplyWith_def)

lemma doApply_selection_doApplyWith: "doApply_selection s i = doApplyWith True s i"
  by (simp add: doApply_selection_ensureOverlay doApplyWith_def)

lemma filter_wrapNodeT:
  "\<not> P (w, wp) \<Longrightarrow> filter P (nodesT (wrapNode i w wp t)) = filter P (nodesT t)"
proof (induction t)
  case (Elem j p ks)
  have H: "concat (map (\<lambda>k. filter P (nodesT (wrapNode i w wp k))) ks) =
      concat (map (\<lambda>k. filter P (nodesT k)) ks)"
    using Elem by (intro arg_cong [where f = concat] map_cong) auto
  show ?case
    using H Elem.prems by (simp add: filter_concat comp_def)
qed

lemma filter_wrapNode:
  "\<not> P (w, wp) \<Longrightarrow> filter P (nodes (map (wrapNode i w wp) ts)) = filter P (nodes ts)"
  by (induction ts) (simp_all add: filter_wrapNodeT)

lemma overlaysOnPage_wrapNode:
  "overlaysOnPage (map (wrapNode i w ((createElement t)\<lparr>classList := [NOISE_WRAPPER_CLASS]\<rparr>)) ts) =
     overlaysOnPage ts"
  by (simp add: overlaysOnPage_def filter_wrapNode)

lemma ensureWrapper_general:
  assumes wf: "distinct (map fst (nodes ts))"
    and e: "lookup i ts = Some e"
    and att: "attached i ts"
  shows "\<exists>w ts1 e1. ensureWrapper ts i = (Some w, ts1)
           \<and> distinct (map fst (nodes ts1))
           \<and> closest NOISE_WRAPPER_CLASS i ts1 = Some w
           \<and> lookup i ts1 = Some e1
           \<and> loadedElement i ts1 = loadedElement i ts
           \<and> overlaysIn w ts1 = scopeOverlays i ts
           \<and> overlaysOnPage ts1 = overlaysOnPage ts
           \<and> fst ` set (nodes ts) \<subseteq> fst ` set (nodes ts1)
           \<and> (\<forall>j\<in>fst ` set (nodes ts). nodeProps j ts1 = nodeProps j ts)"
proof (cases "closest NOISE_WRAPPER_CLASS i ts")
  case (Some w)
  then show ?thesis
    using wf e by (simp add: ensureWrapper_def scopeOverlays_def)
next
  case None
  let ?w = "freshId ts"
  let ?wp = "(createElement ''span'')\<lparr>classList := [NOISE_WRAPPER_CLASS]\<rparr>"
  let ?ts1 = "map (wrapNode i ?w ?wp) ts"
  have fresh: "?w \<notin> fst ` set (nodes ts)" by (rule freshId_fresh)
  from ensureWrapper_result [OF wf e att] obtain w ts1 e1 where
    ew: "ensureWrapper ts i = (Some w, ts1)"
    and r: "distinct (map fst (nodes ts1))" "closest NOISE_WRAPPER_CLASS i ts1 = Some w"
      "lookup i ts1 = Some e1" "loadedElement i ts1 = loadedElement i ts"
      "overlaysIn w ts1 = scopeOverlays i ts"
    by (elim exE conjE) (rule that)
  from att None obtain par where "parentNode i ts = Some par"
    by (auto simp: attached_def)
  with None have "ensureWrapper ts i = (Some ?w, ?ts1)"
    by (simp add: ensureWrapper_def Let_def)
  with ew have "(Some w, ts1) = (Some ?w, ?ts1)" by (rule trans [OF sym])
  then have ts1: "ts1 = ?ts1" by (rule Pair_inject) simp
  have o: "overlaysOnPage ts1 = overlaysOnPage ts"
    unfolding ts1 by (rule overlaysOnPage_wrapNode)
  have sub: "fst ` set (nodes ts) \<subseteq> fst ` set (nodes ts1)"
    unfolding ts1 using nodes_wrapNode_superset [of ts i ?w ?wp] by (rule image_mono)
  have np: "\<forall>j\<in>fst ` set (nodes ts). nodeProps j ts1 = nodeProps j ts"
  proof
    fix j assume "j \<in> fst ` set (nodes ts)"
    with fresh have "j \<noteq> ?w" by blast
    then show "nodeProps j ts1 = nodeProps j ts" unfolding ts1 by (rule nodeProps_wrapNode)
  qed
  from ew r o sub np show ?thesis by blast
qed

lemma getAttribute_restyle:
  "getAttribute j key (map (updateProps x (overlayStyle s)) ts) = getAttribute j key ts"
  by (cases "nodeProps j ts")
    (simp_all add: getAttribute_nodeProps nodeProps_updateProps overlayStyle_def)

lemma getAttribute_other:
  "j \<noteq> i \<Longrightarrow> getAttribute j key (setAttribute i k v ts) = getAttribute j key ts"
  by (simp add: getAttribute_nodeProps nodeProps_writes)

lemma getAttribute_appended:
  "j \<noteq> z \<Longrightarrow> getAttribute j key (map (appendChild w (Elem z cp [])) ts) = getAttribute j key ts"
  by (simp add: getAttribute_nodeProps nodeProps_appendChild)

lemma ensureOverlay_general:
  assumes wf: "distinct (map fst (nodes ts))"
    and cl: "closest NOISE_WRAPPER_CLASS i ts = Some w"
  shows "closest NOISE_WRAPPER_CLASS i (ensureOverlay r s i w ts) = Some w"
    and "overlaysIn w (ensureOverlay r s i w ts) = max 1 (overlaysIn w ts)"
    and "distinct (map fst (nodes (ensureOverlay r s i w ts)))"
    and "getAttribute i NOISE_APPLIED_ATTR (ensureOverlay r s i w ts) = Some ''true''"
    and "loadedElement i (ensureOverlay r s i w ts) = loadedElement i ts"
    and "overlaysOnPage (ensureOverlay r s i w ts) =
           overlaysOnPage ts + (if overlaysIn w ts = 0 then 1 else 0)"
    and "\<forall>j\<in>fst ` set (nodes ts). j \<noteq> i \<longrightarrow>
           getAttribute j key (ensureOverlay r s i w ts) = getAttribute j key ts"
    and "fst ` set (nodes ts) \<subseteq> fst ` set (nodes (ensureOverlay r s i w ts))"
proof -
  from closest_lookup [OF cl] obtain ew where ew: "lookup w ts = Some ew" by blast
  from closest_node [OF cl] obtain e where e: "lookup i ts = Some e" by blast
  have fresh: "freshId ts \<notin> fst ` set (nodes ts)" by (rule freshId_fresh)
  let ?z = "freshId ts"
  let ?ov = "Elem ?z (createOverlay s) []"
  show c: "closest NOISE_WRAPPER_CLASS i (ensureOverlay r s i w ts) = Some w"
  proof (cases "overlaysIn w ts \<le> 1")
    case True
    from ensureOverlay_result(1) [OF wf cl e True] show ?thesis .
  next
    case False
    then obtain x where "querySelector NOISE_OVERLAY_CLASS w ts = Some x"
      using querySelector_overlaysIn(1) [of w ts]
      by (cases "querySelector NOISE_OVERLAY_CLASS w ts") auto
    with cl show ?thesis
      by (simp add: ensureOverlay_def setAttribute_frame restyle_frame)
  qed
  show "overlaysIn w (ensureOverlay r s i w ts) = max 1 (overlaysIn w ts)"
  proof (cases "querySelector NOISE_OVERLAY_CLASS w ts")
    case None
    from querySelector_overlaysIn(1) [OF None] have "overlaysIn w ts = 0" .
    with None appended_overlaysIn [OF wf ew fresh matches_createOverlay, of s] show ?thesis
      by (simp add: ensureOverlay_def setAttribute_frame)
  next
    case (Some x)
    from querySelector_overlaysIn(2) [OF Some] have "0 < overlaysIn w ts" .
    with Some show ?thesis
      by (simp add: ensureOverlay_def setAttribute_frame restyle_frame max_def)
  qed
  show "distinct (map fst (nodes (ensureOverlay r s i w ts)))"
    using wf distinct_appendChild [OF wf fresh, of w "createOverlay s"]
    by (auto simp: ensureOverlay_def setAttribute_frame distinct_updateProps split: option.splits)
  from e have "i \<in> fst ` set (nodes ts)" using lookup_Some_iff [of i ts] by blast
  with fresh have iz: "i \<noteq> ?z" by blast
  have "\<exists>e'. lookup i (case querySelector NOISE_OVERLAY_CLASS w ts of
          Some existing \<Rightarrow>
            if r then map (updateProps existing (overlayStyle s)) ts else ts
        | None \<Rightarrow> map (appendChild w ?ov) ts) = Some e'"
    using e iz by (auto simp: lookup_updateProps lookup_appendChild split: option.splits)
  then show "getAttribute i NOISE_APPLIED_ATTR (ensureOverlay r s i w ts) = Some ''true''"
    unfolding ensureOverlay_def by (auto intro: getAttribute_setAttribute)
  show "loadedElement i (ensureOverlay r s i w ts) = loadedElement i ts"
    using iz
    by (auto simp: ensureOverlay_def loaded_setAttribute loaded_overlayStyle loaded_appendChild
        split: option.splits)
  show "overlaysOnPage (ensureOverlay r s i w ts) =
           overlaysOnPage ts + (if overlaysIn w ts = 0 then 1 else 0)"
  proof (cases "querySelector NOISE_OVERLAY_CLASS w ts")
    case None
    from querySelector_overlaysIn(1) [OF None] have "overlaysIn w ts = 0" .
    with None appended_overlaysOnPage [OF wf ew, of ?z s] show ?thesis
      by (simp add: ensureOverlay_def setAttribute_frame)
  next
    case (Some x)
    from querySelector_overlaysIn(2) [OF Some] have "0 < overlaysIn w ts" .
    with Some show ?thesis
      by (simp add: ensureOverlay_def setAttribute_frame restyle_frame)
  qed
  show "\<forall>j\<in>fst ` set (nodes ts). j \<noteq> i \<longrightarrow>
           getAttribute j key (ensureOverlay r s i w ts) = getAttribute j key ts"
  proof (rule ballI, rule impI)
    fix j assume j: "j \<in> fst ` set (nodes ts)" "j \<noteq> i"
    with fresh have "j \<noteq> ?z" by blast
    with j(2) show "getAttribute j key (ensureOverlay r s i w ts) = getAttribute j key ts"
      by (simp add: ensureOverlay_def getAttribute_other getAttribute_restyle
          getAttribute_appended split: option.splits)
  qed
  show "fst ` set (nodes ts) \<subseteq> fst ` set (nodes (ensureOverlay r s i w ts))"
  proof (cases "querySelector NOISE_OVERLAY_CLASS w ts")
    case None
    then show ?thesis
      using nodes_appendChild_superset [of ts w ?ov]
      by (simp add: ensureOverlay_def attribute_ids image_mono)
  next
    case (Some x)
    then show ?thesis
      by (simp add: ensureOverlay_def attribute_ids ids_updateProps)
  qed
qed

lemma attached_wrapped: "closest NOISE_WRAPPER_CLASS i ts \<noteq> None \<Longrightarrow> attached i ts"
  by (simp add: attached_def)

lemma doApplyWith_step:
  assumes wf: "distinct (map fst (nodes (document s)))"
    and e: "lookup i (document s) \<noteq> None"
    and att: "attached i (document s)"
  shows "distinct (map fst (nodes (document (doApplyWith r s i))))"
    and "closest NOISE_WRAPPER_CLASS i (document (doApplyWith r s i)) \<noteq> None"
    and "scopeOverlays i (document (doApplyWith r s i)) = max 1 (scopeOverlays i (document s))"
    and "getAttribute i NOISE_APPLIED_ATTR (document (doApplyWith r s i)) = Some ''true''"
    and "loadedElement i (document (doApplyWith r s i)) = loadedElement i (document s)"
    and "overlaysOnPage (document (doApplyWith r s i)) =
           overlaysOnPage (document s) + (if scopeOverlays i (document s) = 0 then 1 else 0)"
    and "\<forall>j\<in>fst ` set (nodes (document s)). j \<noteq> i \<longrightarrow>
           getAttribute j key (document (doApplyWith r s i)) = getAttribute j key (document s)"
    and "fst ` set (nodes (document s)) \<subseteq> fst ` set (nodes (document (doApplyWith r s i)))"
    and "doApplyWith r s i = s\<lparr>document := document (doApplyWith r s i)\<rparr>"
    and "lookup i (document (doApplyWith r s i)) \<noteq> None"
proof -
  from e obtain e0 where e0: "lookup i (document s) = Some e0" by blast
  from ensureWrapper_general [OF wf e0 att] obtain w ts1 e1 where
    ew: "ensureWrapper (document s) i = (Some w, ts1)"
    and d1: "distinct (map fst (nodes ts1))"
    and c1: "closest NOISE_WRAPPER_CLASS i ts1 = Some w"
    and l1: "loadedElement i ts1 = loadedElement i (document s)"
    and o1: "overlaysIn w ts1 = scopeOverlays i (document s)"
    and p1: "overlaysOnPage ts1 = overlaysOnPage (document s)"
    and sub1: "fst ` set (nodes (document s)) \<subseteq> fst ` set (nodes ts1)"
    and np1: "\<forall>j\<in>fst ` set (nodes (document s)). nodeProps j ts1 = nodeProps j (document s)"
    by (elim exE conjE) (rule that)
  let ?D = "ensureOverlay r s i w ts1"
  have eq: "doApplyWith r s i = s\<lparr>document := ?D\<rparr>"
    by (simp add: doApplyWith_def ew)
  have doc: "document (doApplyWith r s i) = ?D" by (simp add: eq)
  note g = ensureOverlay_general [OF d1 c1, where r = r and s = s]
  show "distinct (map fst (nodes (document (doApplyWith r s i))))"
    unfolding doc by (rule g(3))
  show "closest NOISE_WRAPPER_CLASS i (document (doApplyWith r s i)) \<noteq> None"
    unfolding doc by (simp add: g(1))
  show "scopeOverlays i (document (doApplyWith r s i)) = max 1 (scopeOverlays i (document s))"
    unfolding doc scopeOverlays_wrapped [OF g(1)] g(2) o1 ..
  show m: "getAttribute i NOISE_APPLIED_ATTR (document (doApplyWith r s i)) = Some ''true''"
    unfolding doc by (rule g(4))
  show "loadedElement i (document (doApplyWith r s i)) = loadedElement i (document s)"
    unfolding doc g(5) by (rule l1)
  show "overlaysOnPage (document (doApplyWith r s i)) =
           overlaysOnPage (document s) + (if scopeOverlays i (document s) = 0 then 1 else 0)"
    unfolding doc g(6) o1 p1 ..
  show "\<forall>j\<in>fst ` set (nodes (document s)). j \<noteq> i \<longrightarrow>
           getAttribute j key (document (doApplyWith r s i)) = getAttribute j key (document s)"
  proof (rule ballI, rule impI)
    fix j assume j: "j \<in> fst ` set (nodes (document s))" "j \<noteq> i"
    with sub1 have "j \<in> fst ` set (nodes ts1)" by blast
    with g(7) [of key] j(2) have "getAttribute j key ?D = getAttribute j key ts1" by blast
    moreover from np1 j(1) have "nodeProps j ts1 = nodeProps j (document s)" by blast
    then have "getAttribute j key ts1 = getAttribute j key (document s)"
      by (rule attribute_same_props)
    ultimately show "getAttribute j key (document (doApplyWith r s i)) =
        getAttribute j key (document s)"
      unfolding doc by simp
  qed
  show "fst ` set (nodes (document s)) \<subseteq> fst ` set (nodes (document (doApplyWith r s i)))"
    unfolding doc using sub1 g(8) by (rule subset_trans)
  show "doApplyWith r s i = s\<lparr>document := document (doApplyWith r s i)\<rparr>"
    unfolding doc by (rule eq)
  show "lookup i (document (doApplyWith r s i)) \<noteq> None"
    using m by (auto simp: getAttribute_def split: option.splits)
qed

lemma runListener_applier:
  "isApplier l \<Longrightarrow> \<exists>r. runListener h i l s = Some (doApplyWith r s i)"
  by (cases l)
    (auto simp: runListener_def doApply_doApplyWith doApply_selection_doApplyWith)

lemma runListener_export:
  "\<not> isApplier l \<Longrightarrow> runListener h i l s = Some s' \<Longrightarrow>
     document s' = document s \<and> selectedImage s' = selectedImage s"
  by (cases l)
    (auto simp: runListener_def finalize_def settled_def
      split: sum.splits option.splits promise.splits)

lemma doApplyWith_selectedImage:
  "selectedImage (doApplyWith r s i) = selectedImage s"
  by (simp add: doApplyWith_def split: prod.splits option.splits)

text \<open>The listeners of a \<open>load\<close> event, run one after the other.\<close>

lemma runListeners_result:
  assumes "runListeners h i ls s = Some s'"
    and "distinct (map fst (nodes (document s)))"
    and "lookup i (document s) \<noteq> None"
    and "attached i (document s)"
  shows "distinct (map fst (nodes (document s')))
    \<and> lookup i (document s') \<noteq> None
    \<and> attached i (document s')
    \<and> scopeOverlays i (document s') =
        (if list_ex isApplier ls then max 1 (scopeOverlays i (document s))
         else scopeOverlays i (document s))
    \<and> overlaysOnPage (document s') =
        overlaysOnPage (document s)
          + (if list_ex isApplier ls \<and> scopeOverlays i (document s) = 0 then 1 else 0)
    \<and> (list_ex isApplier ls \<or> closest NOISE_WRAPPER_CLASS i (document s) \<noteq> None \<longrightarrow>
          closest NOISE_WRAPPER_CLASS i (document s') \<noteq> None)
    \<and> (list_ex isApplier ls \<or> getAttribute i NOISE_APPLIED_ATTR (document s) = Some ''true'' \<longrightarrow>
          getAttribute i NOISE_APPLIED_ATTR (document s') = Some ''true'')
    \<and> selectedImage s' = selectedImage s
    \<and> fst ` set (nodes (document s)) \<subseteq> fst ` set (nodes (document s'))
    \<and> (\<forall>j\<in>fst ` set (nodes (document s)). j \<noteq> i \<longrightarrow>
          getAttribute j key (document s') = getAttribute j key (document s))"
  using assms
proof (induction ls arbitrary: s)
  case Nil
  then show ?case by simp
next
  case (Cons l ls)
  from Cons.prems(1) obtain s1 where
    s1: "runListener h i l s = Some s1" and rest: "runListeners h i ls s1 = Some s'"
    by (cases "runListener h i l s") auto
  show ?case
  proof (cases "isApplier l")
    case False
    from runListener_export [OF False s1] have
      d: "document s1 = document s" and sl: "selectedImage s1 = selectedImage s" by blast+
    have p: "distinct (map fst (nodes (document s1)))" "lookup i (document s1) \<noteq> None"
      "attached i (document s1)"
      unfolding d using Cons.prems(2,3,4) by blast+
    from Cons.IH [OF rest p] False show ?thesis
      unfolding d sl by simp
  next
    case True
    from runListener_applier [OF True, of h i s] s1 obtain r where
      r: "s1 = doApplyWith r s i" by auto
    note st = doApplyWith_step [OF Cons.prems(2) Cons.prems(3) Cons.prems(4),
        where r = r, folded r]
    from st(2) have att1: "attached i (document s1)" by (rule attached_wrapped)
    note ih = Cons.IH [OF rest st(1) st(10) att1]
    have sel1: "selectedImage s1 = selectedImage s"
      unfolding r by (rule doApplyWith_selectedImage)
    have c1: "distinct (map fst (nodes (document s')))" "lookup i (document s') \<noteq> None"
      "attached i (document s')"
      using ih by blast+
    have c4: "scopeOverlays i (document s') = max 1 (scopeOverlays i (document s))"
    proof -
      from ih have "scopeOverlays i (document s') =
        (if list_ex isApplier ls then max 1 (scopeOverlays i (document s1))
         else scopeOverlays i (document s1))" by blast
      then show ?thesis unfolding st(3) by (simp add: max_def)
    qed
    have c5: "overlaysOnPage (document s') =
        overlaysOnPage (document s) + (if scopeOverlays i (document s) = 0 then 1 else 0)"
    proof -
      from ih have "overlaysOnPage (document s') =
        overlaysOnPage (document s1)
          + (if list_ex isApplier ls \<and> scopeOverlays i (document s1) = 0 then 1 else 0)"
        by blast
      then show ?thesis unfolding st(3) st(6) by (simp add: max_def)
    qed
    have c6: "closest NOISE_WRAPPER_CLASS i (document s') \<noteq> None"
      using ih st(2) by blast
    have c7: "getAttribute i NOISE_APPLIED_ATTR (document s') = Some ''true''"
      using ih st(4) by blast
    have c8: "selectedImage s' = selectedImage s"
      using ih sel1 by simp
    have sub': "fst ` set (nodes (document s1)) \<subseteq> fst ` set (nodes (document s'))"
      using ih by blast
    have c9: "fst ` set (nodes (document s)) \<subseteq> fst ` set (nodes (document s'))"
      using st(8) sub' by (rule subset_trans)
    have c10: "\<forall>j\<in>fst ` set (nodes (document s)). j \<noteq> i \<longrightarrow>
          getAttribute j key (document s') = getAttribute j key (document s)"
    proof (rule ballI, rule impI)
      fix j assume j: "j \<in> fst ` set (nodes (document s))" "j \<noteq> i"
      with st(8) have j1: "j \<in> fst ` set (nodes (document s1))" by blast
      from ih have "\<forall>j\<in>fst ` set (nodes (document s1)). j \<noteq> i \<longrightarrow>
          getAttribute j key (document s') = getAttribute j key (document s1)" by blast
      with j1 j(2) have "getAttribute j key (document s') = getAttribute j key (document s1)"
        by blast
      moreover from st(7) j have "getAttribute j key (document s1) = getAttribute j key (document s)"
        by blast
      ultimately show "getAttribute j key (document s') = getAttribute j key (document s)"
        by simp
    qed
    from True c1 c4 c5 c6 c7 c8 c9 c10 show ?thesis by simp
  qed
qed

lemma runListeners_total:
  "list_all isApplier ls \<Longrightarrow> runListeners h i ls s \<noteq> None"
proof (induction ls arbitrary: s)
  case Nil
  show ?case by simp
next
  case (Cons l ls)
  from Cons.prems have "isApplier l" by simp
  from runListener_applier [OF this, of h i s] obtain r where
    "runListener h i l s = Some (doApplyWith r s i)" by blast
  with Cons show ?case by simp
qed

section \<open>The load event\<close>

text \<open>Writes to a node that keep its type, its classes and its attributes.\<close>

lemma scopeOverlays_updateProps:
  assumes "keepsClass NOISE_WRAPPER_CLASS g" and "keepsClass NOISE_OVERLAY_CLASS g"
  shows "scopeOverlays i (map (updateProps j g) ts) = scopeOverlays i ts"
proof (cases "closest NOISE_WRAPPER_CLASS i ts")
  case (Some w)
  then show ?thesis
    by (simp add: scopeOverlays_def closest_updateProps [OF assms(1)]
        overlaysIn_updateProps [OF assms(2)])
next
  case None
  show ?thesis
  proof (cases "lookup i ts")
    case n: None
    with None show ?thesis
      by (simp add: scopeOverlays_def closest_updateProps [OF assms(1)] lookup_updateProps)
  next
    case (Some e)
    have "length (filter (matches NOISE_OVERLAY_CLASS) (nodesT (updateProps j g e))) =
        length (filter (matches NOISE_OVERLAY_CLASS) (nodesT e))"
      by (simp add: nodesT_updateProps filter_map matches_comp_onNode [OF assms(2)])
    with None Some show ?thesis
      by (simp add: scopeOverlays_def closest_updateProps [OF assms(1)] lookup_updateProps)
  qed
qed

lemma props_update_frame:
  assumes "keepsClass NOISE_WRAPPER_CLASS g" and "keepsClass NOISE_OVERLAY_CLASS g"
    and "\<And>p. attributes (g p) = attributes p"
  shows "distinct (map fst (nodes (map (updateProps j g) ts))) = distinct (map fst (nodes ts))"
    and "(lookup i (map (updateProps j g) ts) = None) = (lookup i ts = None)"
    and "attached i (map (updateProps j g) ts) = attached i ts"
    and "scopeOverlays i (map (updateProps j g) ts) = scopeOverlays i ts"
    and "overlaysOnPage (map (updateProps j g) ts) = overlaysOnPage ts"
    and "closest NOISE_WRAPPER_CLASS i (map (updateProps j g) ts) = closest NOISE_WRAPPER_CLASS i ts"
    and "getAttribute x key (map (updateProps j g) ts) = getAttribute x key ts"
    and "fst ` set (nodes (map (updateProps j g) ts)) = fst ` set (nodes ts)"
    and "elementNode i (map (updateProps j g) ts) = elementNode i ts"
proof -
  show "distinct (map fst (nodes (map (updateProps j g) ts))) = distinct (map fst (nodes ts))"
    by (rule distinct_updateProps)
  show "(lookup i (map (updateProps j g) ts) = None) = (lookup i ts = None)"
    by (simp add: lookup_updateProps)
  show "closest NOISE_WRAPPER_CLASS i (map (updateProps j g) ts) = closest NOISE_WRAPPER_CLASS i ts"
    using assms(1) by (rule closest_updateProps)
  then show "attached i (map (updateProps j g) ts) = attached i ts"
    by (simp add: attached_def parentNode_updateProps)
  show "scopeOverlays i (map (updateProps j g) ts) = scopeOverlays i ts"
    using assms(1,2) by (rule scopeOverlays_updateProps)
  show "overlaysOnPage (map (updateProps j g) ts) = overlaysOnPage ts"
    using assms(2) by (rule overlaysOnPage_updateProps)
  show "getAttribute x key (map (updateProps j g) ts) = getAttribute x key ts"
    by (cases "nodeProps x ts")
      (simp_all add: getAttribute_nodeProps nodeProps_updateProps assms(3))
  show "fst ` set (nodes (map (updateProps j g) ts)) = fst ` set (nodes ts)"
    by (rule ids_updateProps)
  show "elementNode i (map (updateProps j g) ts) = elementNode i ts"
    using assms(1)
    by (cases "lookup i ts")
      (simp_all add: elementNode_def lookup_updateProps eprops_updateProps keepsClass_def)
qed

lemma keepsClass_load [simp]:
  "keepsClass c (\<lambda>p. p\<lparr>isComplete := a, naturalWidth := b, naturalHeight := d,
                          loadListeners := ls\<rparr>)"
  by (simp add: keepsClass_def)

lemma keepsClass_listeners [simp]:
  "keepsClass c (\<lambda>p. p\<lparr>loadListeners := loadListeners p @ ls\<rparr>)"
  by (simp add: keepsClass_def)

lemma load_frame:
  "distinct (map fst (nodes (map (updateProps j (\<lambda>p. p\<lparr>isComplete := True, naturalWidth := width,
     naturalHeight := height, loadListeners := []\<rparr>)) ts))) = distinct (map fst (nodes ts))"
  "(lookup i (map (updateProps j (\<lambda>p. p\<lparr>isComplete := True, naturalWidth := width,
     naturalHeight := height, loadListeners := []\<rparr>)) ts) = None) = (lookup i ts = None)"
  "attached i (map (updateProps j (\<lambda>p. p\<lparr>isComplete := True, naturalWidth := width,
     naturalHeight := height, loadListeners := []\<rparr>)) ts) = attached i ts"
  "scopeOverlays i (map (updateProps j (\<lambda>p. p\<lparr>isComplete := True, naturalWidth := width,
     naturalHeight := height, loadListeners := []\<rparr>)) ts) = scopeOverlays i ts"
  "overlaysOnPage (map (updateProps j (\<lambda>p. p\<lparr>isComplete := True, naturalWidth := width,
     naturalHeight := height, loadListeners := []\<rparr>)) ts) = overlaysOnPage ts"
  "closest NOISE_WRAPPER_CLASS i (map (updateProps j (\<lambda>p. p\<lparr>isComplete := True, naturalWidth := width,
     naturalHeight := height, loadListeners := []\<rparr>)) ts) = closest NOISE_WRAPPER_CLASS i ts"
  "getAttribute x key (map (updateProps j (\<lambda>p. p\<lparr>isComplete := True, naturalWidth := width,
     naturalHeight := height, loadListeners := []\<rparr>)) ts) = getAttribute x key ts"
  "fst ` set (nodes (map (updateProps j (\<lambda>p. p\<lparr>isComplete := True, naturalWidth := width,
     naturalHeight := height, loadListeners := []\<rparr>)) ts)) = fst ` set (nodes ts)"
  "elementNode i (map (updateProps j (\<lambda>p. p\<lparr>isComplete := True, naturalWidth := width,
     naturalHeight := height, loadListeners := []\<rparr>)) ts) = elementNode i ts"
  by (simp_all add: props_update_frame)

lemma imageLoaded_runs:
  "lookup i (document s) \<noteq> None \<Longrightarrow>
     imageLoaded h s i width height =
       runListeners h i (pendingListeners i (document s))
         (s\<lparr>document := map (updateProps i
                (\<lambda>p. p\<lparr>isComplete := True, naturalWidth := width,
                         naturalHeight := height, loadListeners := []\<rparr>)) (document s)\<rparr>)"
  by (auto simp: imageLoaded_def pendingListeners_def)

text \<open>What the load event of an image leaves, whatever listeners were waiting for it.\<close>

lemma imageLoaded_result:
  assumes run: "imageLoaded h s i width height = Some s'"
    and wf: "distinct (map fst (nodes (document s)))"
    and e: "lookup i (document s) \<noteq> None"
    and att: "attached i (document s)"
  shows "scopeOverlays i (document s') =
        (if list_ex isApplier (pendingListeners i (document s))
         then max 1 (scopeOverlays i (document s)) else scopeOverlays i (document s))"
    and "overlaysOnPage (document s') =
        overlaysOnPage (document s)
          + (if list_ex isApplier (pendingListeners i (document s))
                \<and> scopeOverlays i (document s) = 0 then 1 else 0)"
    and "list_ex isApplier (pendingListeners i (document s)) \<Longrightarrow>
          closest NOISE_WRAPPER_CLASS i (document s') \<noteq> None"
    and "list_ex isApplier (pendingListeners i (document s)) \<Longrightarrow>
          getAttribute i NOISE_APPLIED_ATTR (document s') = Some ''true''"
    and "selectedImage s' = selectedImage s"
    and "\<forall>j\<in>fst ` set (nodes (document s)). j \<noteq> i \<longrightarrow>
          getAttribute j key (document s') = getAttribute j key (document s)"
proof -
  let ?g = "\<lambda>p. p\<lparr>isComplete := True, naturalWidth := width,
                         naturalHeight := height, loadListeners := []\<rparr>"
  let ?s0 = "s\<lparr>document := map (updateProps i ?g) (document s)\<rparr>"
  have d0: "document ?s0 = map (updateProps i ?g) (document s)" by simp
  from run have r: "runListeners h i (pendingListeners i (document s)) ?s0 = Some s'"
    unfolding imageLoaded_runs [OF e] .
  have p: "distinct (map fst (nodes (document ?s0)))" "lookup i (document ?s0) \<noteq> None"
    "attached i (document ?s0)"
    unfolding d0 load_frame using wf e att by blast+
  note res = runListeners_result [OF r p, where key = key, unfolded d0 load_frame]
  from res show "scopeOverlays i (document s') =
        (if list_ex isApplier (pendingListeners i (document s))
         then max 1 (scopeOverlays i (document s)) else scopeOverlays i (document s))"
    by blast
  from res show "overlaysOnPage (document s') =
        overlaysOnPage (document s)
          + (if list_ex isApplier (pendingListeners i (document s))
                \<and> scopeOverlays i (document s) = 0 then 1 else 0)"
    by blast
  from res show "list_ex isApplier (pendingListeners i (document s)) \<Longrightarrow>
          closest NOISE_WRAPPER_CLASS i (document s') \<noteq> None"
    by blast
  from res show "list_ex isApplier (pendingListeners i (document s)) \<Longrightarrow>
          getAttribute i NOISE_APPLIED_ATTR (document s') = Some ''true''"
    by blast
  from res show "selectedImage s' = selectedImage s" by simp
  from res show "\<forall>j\<in>fst ` set (nodes (document s)). j \<noteq> i \<longrightarrow>
          getAttribute j key (document s') = getAttribute j key (document s)"
    by blast
qed

lemma imageLoaded_total:
  "list_all isApplier (pendingListeners i (document s)) \<Longrightarrow>
     imageLoaded h s i width height \<noteq> None"
  by (cases "lookup i (document s)")
    (simp_all add: imageLoaded_def pendingListeners_def runListeners_total)

section \<open>Noise applied to an image that is still loading\<close>

lemma updateProps_same: "(\<And>p. g p = p) \<Longrightarrow> updateProps j g t = t"
  by (rule updateProps_id) simp

lemma register_funpow:
  "(addLoadListener i l ^^ m) ts =
     map (updateProps i (\<lambda>p. p\<lparr>loadListeners := loadListeners p @ replicate m l\<rparr>)) ts"
proof (induction m)
  case 0
  have "map (updateProps i (\<lambda>p. p\<lparr>loadListeners := loadListeners p @ replicate 0 l\<rparr>)) ts = ts"
    by (rule map_idI) (simp add: updateProps_same)
  then show ?case by simp
next
  case (Suc m)
  have c: "(\<lambda>p. p\<lparr>loadListeners := loadListeners p @ [l]\<rparr>) \<circ>
           (\<lambda>p. p\<lparr>loadListeners := loadListeners p @ replicate m l\<rparr>) =
           (\<lambda>p::props. p\<lparr>loadListeners := loadListeners p @ replicate (Suc m) l\<rparr>)"
    by (simp add: fun_eq_iff replicate_append_same)
  have "(addLoadListener i l ^^ Suc m) ts = addLoadListener i l ((addLoadListener i l ^^ m) ts)"
    by simp
  also have "\<dots> = map (updateProps i (\<lambda>p. p\<lparr>loadListeners := loadListeners p @ [l]\<rparr>))
      (map (updateProps i (\<lambda>p. p\<lparr>loadListeners := loadListeners p @ replicate m l\<rparr>)) ts)"
    unfolding Suc addLoadListener_def ..
  also have "\<dots> =
      map (updateProps i (\<lambda>p. p\<lparr>loadListeners := loadListeners p @ replicate (Suc m) l\<rparr>)) ts"
    unfolding map_map comp_def updateProps_comp c [unfolded comp_def] ..
  finally show ?case .
qed

lemma registered_frame:
  "distinct (map fst (nodes ((addLoadListener j l ^^ m) ts))) = distinct (map fst (nodes ts))"
  "(lookup i ((addLoadListener j l ^^ m) ts) = None) = (lookup i ts = None)"
  "attached i ((addLoadListener j l ^^ m) ts) = attached i ts"
  "scopeOverlays i ((addLoadListener j l ^^ m) ts) = scopeOverlays i ts"
  "overlaysOnPage ((addLoadListener j l ^^ m) ts) = overlaysOnPage ts"
  "closest NOISE_WRAPPER_CLASS i ((addLoadListener j l ^^ m) ts) = closest NOISE_WRAPPER_CLASS i ts"
  "getAttribute x key ((addLoadListener j l ^^ m) ts) = getAttribute x key ts"
  "fst ` set (nodes ((addLoadListener j l ^^ m) ts)) = fst ` set (nodes ts)"
  "elementNode i ((addLoadListener j l ^^ m) ts) = elementNode i ts"
  unfolding register_funpow by (simp_all add: props_update_frame)

lemma loaded_registered:
  "loadedElement i ((addLoadListener j l ^^ m) ts) = loadedElement i ts"
  unfolding register_funpow
  by (cases "nodeProps i ts") (simp_all add: loadedElement_nodeProps nodeProps_updateProps)

lemma pending_registered:
  "lookup i ts \<noteq> None \<Longrightarrow>
     pendingListeners i ((addLoadListener i l ^^ m) ts) = pendingListeners i ts @ replicate m l"
  unfolding register_funpow
  by (cases "lookup i ts")
    (auto simp: pendingListeners_def lookup_updateProps eprops_updateProps dest: lookup_eid)

lemma applyNoise_waiting:
  assumes "elementNode i (document s)" and "\<not> loadedElement i (document s)"
    and "getAttribute i NOISE_APPLIED_ATTR (document s) \<noteq> Some ''true''"
  shows "applyNoise s i = s\<lparr>document := addLoadListener i DoApply (document s)\<rparr>"
  using assms
  by (cases "lookup i (document s)") (auto simp: applyNoise_def elementNode_def loadedElement_def)

lemma applyNoise_selection_waiting:
  assumes "elementNode i (document s)" and "\<not> loadedElement i (document s)"
  shows "applyNoise_selection s i =
         s\<lparr>document := addLoadListener i DoApplySelection (document s)\<rparr>"
  using assms
  by (cases "lookup i (document s)")
    (auto simp: applyNoise_selection_def elementNode_def loadedElement_def)

lemma applyNoise_funpow_waiting:
  assumes "elementNode i (document s)" and "\<not> loadedElement i (document s)"
    and "getAttribute i NOISE_APPLIED_ATTR (document s) \<noteq> Some ''true''"
  shows "((\<lambda>s'. applyNoise s' i) ^^ m) s =
         s\<lparr>document := (addLoadListener i DoApply ^^ m) (document s)\<rparr>"
proof (induction m)
  case 0
  show ?case by simp
next
  case (Suc m)
  let ?R = "(addLoadListener i DoApply ^^ m) (document s)"
  have "applyNoise (s\<lparr>document := ?R\<rparr>) i =
      (s\<lparr>document := ?R\<rparr>)\<lparr>document := addLoadListener i DoApply (document (s\<lparr>document := ?R\<rparr>))\<rparr>"
    by (rule applyNoise_waiting) (simp_all add: registered_frame loaded_registered assms)
  then show ?case by (simp add: Suc)
qed

lemma applyNoise_selection_funpow_waiting:
  assumes "elementNode i (document s)" and "\<not> loadedElement i (document s)"
  shows "((\<lambda>s'. applyNoise_selection s' i) ^^ m) s =
         s\<lparr>document := (addLoadListener i DoApplySelection ^^ m) (document s)\<rparr>"
proof (induction m)
  case 0
  show ?case by simp
next
  case (Suc m)
  let ?R = "(addLoadListener i DoApplySelection ^^ m) (document s)"
  have "applyNoise_selection (s\<lparr>document := ?R\<rparr>) i =
      (s\<lparr>document := ?R\<rparr>)\<lparr>document :=
         addLoadListener i DoApplySelection (document (s\<lparr>document := ?R\<rparr>))\<rparr>"
    by (rule applyNoise_selection_waiting) (simp_all add: registered_frame loaded_registered assms)
  then show ?case by (simp add: Suc)
qed

text \<open>
  Listeners that apply noise were registered on an image, and then the image loads.
\<close>

lemma registered_then_loaded:
  assumes wf: "distinct (map fst (nodes (document s)))"
    and e: "lookup i (document s) \<noteq> None"
    and att: "attached i (document s)"
    and l: "isApplier l"
  shows "\<forall>s'. imageLoaded h (s\<lparr>document := (addLoadListener i l ^^ Suc n) (document s)\<rparr>)
                 i width height = Some s' \<longrightarrow>
               overlaid i (scopeOverlays i (document s)) (document s')
               \<and> overlaysOnPage (document s') =
                   overlaysOnPage (document s)
                     + (if scopeOverlays i (document s) = 0 then 1 else 0)
               \<and> selectedImage s' = selectedImage s
               \<and> (\<forall>j\<in>fst ` set (nodes (document s)). j \<noteq> i \<longrightarrow>
                     getAttribute j key (document s') = getAttribute j key (document s))"
    and "list_all isApplier (pendingListeners i (document s)) \<longrightarrow>
           imageLoaded h (s\<lparr>document := (addLoadListener i l ^^ Suc n) (document s)\<rparr>)
             i width height \<noteq> None"
proof -
  let ?R = "(addLoadListener i l ^^ Suc n) (document s)"
  let ?sn = "s\<lparr>document := ?R\<rparr>"
  have dn: "document ?sn = ?R" by simp
  have pend: "pendingListeners i ?R = pendingListeners i (document s) @ replicate (Suc n) l"
    using e by (rule pending_registered)
  have ex: "list_ex isApplier (pendingListeners i (document ?sn))"
    unfolding dn pend using l by simp
  have p: "distinct (map fst (nodes (document ?sn)))" "lookup i (document ?sn) \<noteq> None"
    "attached i (document ?sn)"
    unfolding dn registered_frame using wf e att by blast+
  show "\<forall>s'. imageLoaded h ?sn i width height = Some s' \<longrightarrow>
               overlaid i (scopeOverlays i (document s)) (document s')
               \<and> overlaysOnPage (document s') =
                   overlaysOnPage (document s)
                     + (if scopeOverlays i (document s) = 0 then 1 else 0)
               \<and> selectedImage s' = selectedImage s
               \<and> (\<forall>j\<in>fst ` set (nodes (document s)). j \<noteq> i \<longrightarrow>
                     getAttribute j key (document s') = getAttribute j key (document s))"
  proof (rule allI, rule impI)
    fix s' assume run: "imageLoaded h ?sn i width height = Some s'"
    note res = imageLoaded_result [OF run p]
    have a: "scopeOverlays i (document s') = max 1 (scopeOverlays i (document s))"
      using res(1) ex unfolding dn registered_frame by simp
    have b: "overlaysOnPage (document s') =
        overlaysOnPage (document s) + (if scopeOverlays i (document s) = 0 then 1 else 0)"
      using res(2) ex unfolding dn registered_frame by simp
    have c: "closest NOISE_WRAPPER_CLASS i (document s') \<noteq> None"
      using ex by (rule res(3))
    have d: "getAttribute i NOISE_APPLIED_ATTR (document s') = Some ''true''"
      using ex by (rule res(4))
    have f: "selectedImage s' = selectedImage s"
      using res(5) by simp
    have g: "\<forall>j\<in>fst ` set (nodes (document s)). j \<noteq> i \<longrightarrow>
                     getAttribute j key (document s') = getAttribute j key (document s)"
      using res(6) [of key] unfolding dn registered_frame .
    from a b c d f g show "overlaid i (scopeOverlays i (document s)) (document s')
               \<and> overlaysOnPage (document s') =
                   overlaysOnPage (document s)
                     + (if scopeOverlays i (document s) = 0 then 1 else 0)
               \<and> selectedImage s' = selectedImage s
               \<and> (\<forall>j\<in>fst ` set (nodes (document s)). j \<noteq> i \<longrightarrow>
                     getAttribute j key (document s') = getAttribute j key (document s))"
      by (simp add: overlaid_def)
  qed
  show "list_all isApplier (pendingListeners i (document s)) \<longrightarrow>
           imageLoaded h ?sn i width height \<noteq> None"
  proof
    assume "list_all isApplier (pendingListeners i (document s))"
    with l have "list_all isApplier (pendingListeners i (document ?sn))"
      unfolding dn pend by (auto simp: list_all_iff)
    then show "imageLoaded h ?sn i width height \<noteq> None" by (rule imageLoaded_total)
  qed
qed

section \<open>Applying noise any number of times\<close>

lemma elementNode_lookup: "elementNode i ts \<Longrightarrow> lookup i ts \<noteq> None"
  by (auto simp: elementNode_def split: option.splits)

lemma applyNoise_selection_again:
  assumes wf: "distinct (map fst (nodes (document s)))"
    and ld: "loadedElement i (document s)"
    and att: "attached i (document s)"
  shows "applyNoise_selection (applyNoise_selection s i) i = applyNoise_selection s i"
proof -
  from loadedElement_lookup [OF ld] obtain e where e: "lookup i (document s) = Some e" by blast
  from ensureWrapper_general [OF wf e att] obtain w ts1 where
    ew: "ensureWrapper (document s) i = (Some w, ts1)"
    and d1: "distinct (map fst (nodes ts1))"
    and c1: "closest NOISE_WRAPPER_CLASS i ts1 = Some w"
    and l1: "loadedElement i ts1 = loadedElement i (document s)"
    by (elim exE conjE) (rule that)
  have sel: "applyNoise_selection s i = s\<lparr>document := ensureOverlay True s i w ts1\<rparr>"
    by (simp add: applyNoise_selection_loaded [OF ld] doApply_selection_ensureOverlay ew)
  have "loadedElement i (ensureOverlay True s i w ts1)"
    unfolding ensureOverlay_general(5) [OF d1 c1] l1 by (rule ld)
  then show ?thesis
    unfolding sel by (simp add: applyNoise_selection_loaded doApply_again [OF c1 d1])
qed

lemma overlaid_doApplyWith:
  assumes "distinct (map fst (nodes (document s)))"
    and "lookup i (document s) \<noteq> None"
    and "attached i (document s)"
  shows "overlaid i (scopeOverlays i (document s)) (document (doApplyWith r s i))"
  unfolding overlaid_def
  using doApplyWith_step(2) [OF assms] doApplyWith_step(3) [OF assms]
    doApplyWith_step(4) [OF assms]
  by simp

text \<open>
  C1 (as amended). Let the image be an element of a page whose nodes have distinct
  identities, with a parent or a wrapper, and let \<open>k\<close> be the number of overlays in its
  scope (its nearest wrapper, or its own subtree when it has no wrapper).
  \<^item> \<open>applyNoise\<close> of the page-wide script skips the image when it is marked processed: the
    page is unchanged. \<open>applyNoise\<close> of the selection script has no such test.
  \<^item> When the image has loaded, applying noise once or more (the page-wide script on an
    unmarked image, the selection script always) leaves the image in a wrapper that
    holds exactly one overlay when \<open>k \<le> 1\<close> (the \<open>k\<close> overlays that were there
    otherwise), and marked processed; and it gives the page that applying it once gives.
  \<^item> When the image is still loading, the same holds after its \<open>load\<close> event, whenever the
    listeners of that event return; they do return when no export is waiting for the
    image.
\<close>

theorem applyNoise_idempotent:
  assumes wf: "distinct (map fst (nodes (document s)))"
    and el: "elementNode i (document s)"
    and att: "attached i (document s)"
  shows
    "(getAttribute i NOISE_APPLIED_ATTR (document s) = Some ''true'' \<longrightarrow> applyNoise s i = s)
   \<and> (getAttribute i NOISE_APPLIED_ATTR (document s) \<noteq> Some ''true''
        \<and> loadedElement i (document s) \<longrightarrow>
          overlaid i (scopeOverlays i (document s))
            (document (((\<lambda>s'. applyNoise s' i) ^^ Suc n) s))
        \<and> ((\<lambda>s'. applyNoise s' i) ^^ Suc n) s = applyNoise s i)
   \<and> (getAttribute i NOISE_APPLIED_ATTR (document s) \<noteq> Some ''true''
        \<and> \<not> loadedElement i (document s) \<longrightarrow>
          (\<forall>s'. imageLoaded h (((\<lambda>s'. applyNoise s' i) ^^ Suc n) s) i width height = Some s' \<longrightarrow>
                 overlaid i (scopeOverlays i (document s)) (document s'))
        \<and> (list_all isApplier (pendingListeners i (document s)) \<longrightarrow>
             imageLoaded h (((\<lambda>s'. applyNoise s' i) ^^ Suc n) s) i width height \<noteq> None))
   \<and> (loadedElement i (document s) \<longrightarrow>
          overlaid i (scopeOverlays i (document s))
            (document (((\<lambda>s'. applyNoise_selection s' i) ^^ Suc n) s))
        \<and> ((\<lambda>s'. applyNoise_selection s' i) ^^ Suc n) s = applyNoise_selection s i)
   \<and> (\<not> loadedElement i (document s) \<longrightarrow>
          (\<forall>s'. imageLoaded h (((\<lambda>s'. applyNoise_selection s' i) ^^ Suc n) s) i width height
                   = Some s' \<longrightarrow>
                 overlaid i (scopeOverlays i (document s)) (document s'))
        \<and> (list_all isApplier (pendingListeners i (document s)) \<longrightarrow>
             imageLoaded h (((\<lambda>s'. applyNoise_selection s' i) ^^ Suc n) s) i width height
               \<noteq> None))"
proof -
  let ?marked = "getAttribute i NOISE_APPLIED_ATTR (document s) = Some ''true''"
  let ?k = "scopeOverlays i (document s)"
  from el have e: "lookup i (document s) \<noteq> None" by (rule elementNode_lookup)
  have c1: "?marked \<longrightarrow> applyNoise s i = s"
    by (simp add: applyNoise_marked)
  have c2: "\<not> ?marked \<and> loadedElement i (document s) \<longrightarrow>
          overlaid i ?k (document (((\<lambda>s'. applyNoise s' i) ^^ Suc n) s))
        \<and> ((\<lambda>s'. applyNoise s' i) ^^ Suc n) s = applyNoise s i"
  proof
    assume a: "\<not> ?marked \<and> loadedElement i (document s)"
    then have once: "applyNoise s i = doApplyWith False s i"
      by (simp add: applyNoise_loaded doApply_doApplyWith)
    have ov: "overlaid i ?k (document (applyNoise s i))"
      unfolding once using wf e att by (rule overlaid_doApplyWith)
    then have "getAttribute i NOISE_APPLIED_ATTR (document (applyNoise s i)) = Some ''true''"
      by (simp add: overlaid_def)
    then have "applyNoise (applyNoise s i) i = applyNoise s i"
      by (rule applyNoise_marked)
    then have "((\<lambda>s'. applyNoise s' i) ^^ Suc n) s = applyNoise s i"
      by (rule funpow_fixed)
    with ov show "overlaid i ?k (document (((\<lambda>s'. applyNoise s' i) ^^ Suc n) s))
        \<and> ((\<lambda>s'. applyNoise s' i) ^^ Suc n) s = applyNoise s i"
      by simp
  qed
  have c3: "\<not> ?marked \<and> \<not> loadedElement i (document s) \<longrightarrow>
          (\<forall>s'. imageLoaded h (((\<lambda>s'. applyNoise s' i) ^^ Suc n) s) i width height = Some s' \<longrightarrow>
                 overlaid i ?k (document s'))
        \<and> (list_all isApplier (pendingListeners i (document s)) \<longrightarrow>
             imageLoaded h (((\<lambda>s'. applyNoise s' i) ^^ Suc n) s) i width height \<noteq> None)"
  proof
    assume a: "\<not> ?marked \<and> \<not> loadedElement i (document s)"
    then have f: "((\<lambda>s'. applyNoise s' i) ^^ Suc n) s =
        s\<lparr>document := (addLoadListener i DoApply ^^ Suc n) (document s)\<rparr>"
      using el by (intro applyNoise_funpow_waiting) simp_all
    have l: "isApplier DoApply" by simp
    from registered_then_loaded(1) [OF wf e att l, of h n width height]
      registered_then_loaded(2) [OF wf e att l, of h n width height]
    show "(\<forall>s'. imageLoaded h (((\<lambda>s'. applyNoise s' i) ^^ Suc n) s) i width height = Some s' \<longrightarrow>
                 overlaid i ?k (document s'))
        \<and> (list_all isApplier (pendingListeners i (document s)) \<longrightarrow>
             imageLoaded h (((\<lambda>s'. applyNoise s' i) ^^ Suc n) s) i width height \<noteq> None)"
      unfolding f by blast
  qed
  have c4: "loadedElement i (document s) \<longrightarrow>
          overlaid i ?k (document (((\<lambda>s'. applyNoise_selection s' i) ^^ Suc n) s))
        \<and> ((\<lambda>s'. applyNoise_selection s' i) ^^ Suc n) s = applyNoise_selection s i"
  proof
    assume ld: "loadedElement i (document s)"
    then have once: "applyNoise_selection s i = doApplyWith True s i"
      by (simp add: applyNoise_selection_loaded doApply_selection_doApplyWith)
    have ov: "overlaid i ?k (document (applyNoise_selection s i))"
      unfolding once using wf e att by (rule overlaid_doApplyWith)
    from applyNoise_selection_again [OF wf ld att]
    have "((\<lambda>s'. applyNoise_selection s' i) ^^ Suc n) s = applyNoise_selection s i"
      by (rule funpow_fixed)
    with ov show "overlaid i ?k (document (((\<lambda>s'. applyNoise_selection s' i) ^^ Suc n) s))
        \<and> ((\<lambda>s'. applyNoise_selection s' i) ^^ Suc n) s = applyNoise_selection s i"
      by simp
  qed
  have c5: "\<not> loadedElement i (document s) \<longrightarrow>
          (\<forall>s'. imageLoaded h (((\<lambda>s'. applyNoise_selection s' i) ^^ Suc n) s) i width height
                   = Some s' \<longrightarrow>
                 overlaid i ?k (document s'))
        \<and> (list_all isApplier (pendingListeners i (document s)) \<longrightarrow>
             imageLoaded h (((\<lambda>s'. applyNoise_selection s' i) ^^ Suc n) s) i width height
               \<noteq> None)"
  proof
    assume a: "\<not> loadedElement i (document s)"
    with el have f: "((\<lambda>s'. applyNoise_selection s' i) ^^ Suc n) s =
        s\<lparr>document := (addLoadListener i DoApplySelection ^^ Suc n) (document s)\<rparr>"
      by (rule applyNoise_selection_funpow_waiting)
    have l: "isApplier DoApplySelection" by simp
    from registered_then_loaded(1) [OF wf e att l, of h n width height]
      registered_then_loaded(2) [OF wf e att l, of h n width height]
    show "(\<forall>s'. imageLoaded h (((\<lambda>s'. applyNoise_selection s' i) ^^ Suc n) s) i width height
                   = Some s' \<longrightarrow>
                 overlaid i ?k (document s'))
        \<and> (list_all isApplier (pendingListeners i (document s)) \<longrightarrow>
             imageLoaded h (((\<lambda>s'. applyNoise_selection s' i) ^^ Suc n) s) i width height
               \<noteq> None)"
      unfolding f by blast
  qed
  show ?thesis
    by (rule conjI [OF c1 conjI [OF c2 conjI [OF c3 conjI [OF c4 c5]]]])
qed

lemma examplePage_element:
  "elementNode 2 (document examplePage)"
  "elementNode 3 (document examplePage)"
  "scopeOverlays 2 (document examplePage) = 0"
  by (simp_all add: examplePage_def exampleDocument_def exampleImage_def nodes_def
      elementNode_def scopeOverlays_def lookup_def closest_def pathTo_def matches_def
      createElement_def ELEMENT_NODE_def DOCUMENT_NODE_def NOISE_OVERLAY_CLASS_def
      NOISE_WRAPPER_CLASS_def)

lemma exampleOverlayPage_element: "elementNode 2 (document exampleOverlayPage)"
  by (simp add: exampleOverlayPage_def elementNode_def lookup_def createElement_def
      ELEMENT_NODE_def DOCUMENT_NODE_def)

lemma exampleLoadingPage_image:
  "distinct (map fst (nodes (document exampleLoadingPage)))"
  "elementNode 2 (document exampleLoadingPage)"
  "attached 2 (document exampleLoadingPage)"
  "getAttribute 2 NOISE_APPLIED_ATTR (document exampleLoadingPage) \<noteq> Some ''true''"
  "\<not> loadedElement 2 (document exampleLoadingPage)"
  "list_all isApplier (pendingListeners 2 (document exampleLoadingPage))"
  "scopeOverlays 2 (document exampleLoadingPage) = 0"
  by (simp_all add: exampleLoadingPage_def exampleImage_def nodes_def
      elementNode_def loadedElement_def attached_def scopeOverlays_def getAttribute_def
      pendingListeners_def lookup_def parentNode_def closest_def pathTo_def matches_def
      createElement_def ELEMENT_NODE_def DOCUMENT_NODE_def NOISE_OVERLAY_CLASS_def
      NOISE_WRAPPER_CLASS_def)

theorem applyNoise_idempotent_witness:
  "distinct (map fst (nodes (document examplePage)))
   \<and> elementNode 2 (document examplePage)
   \<and> attached 2 (document examplePage)
   \<and> getAttribute 2 NOISE_APPLIED_ATTR (document examplePage) \<noteq> Some ''true''
   \<and> loadedElement 2 (document examplePage)
   \<and> scopeOverlays 2 (document examplePage) = 0
   \<and> overlaid 2 0 (document (applyNoise (applyNoise examplePage 2) 2))
   \<and> applyNoise (applyNoise examplePage 2) 2 = applyNoise examplePage 2
   \<and> overlaid 2 0 (document (applyNoise_selection (applyNoise_selection examplePage 2) 2))
   \<and> applyNoise_selection (applyNoise_selection examplePage 2) 2 =
       applyNoise_selection examplePage 2
   \<and> distinct (map fst (nodes (document exampleOverlayPage)))
   \<and> elementNode 2 (document exampleOverlayPage)
   \<and> attached 2 (document exampleOverlayPage)
   \<and> getAttribute 2 NOISE_APPLIED_ATTR (document exampleOverlayPage) = Some ''true''
   \<and> applyNoise exampleOverlayPage 2 = exampleOverlayPage
   \<and> distinct (map fst (nodes (document exampleLoadingPage)))
   \<and> elementNode 2 (document exampleLoadingPage)
   \<and> attached 2 (document exampleLoadingPage)
   \<and> getAttribute 2 NOISE_APPLIED_ATTR (document exampleLoadingPage) \<noteq> Some ''true''
   \<and> \<not> loadedElement 2 (document exampleLoadingPage)
   \<and> list_all isApplier (pendingListeners 2 (document exampleLoadingPage))
   \<and> scopeOverlays 2 (document exampleLoadingPage) = 0
   \<and> (case imageLoaded exampleHost (applyNoise (applyNoise exampleLoadingPage 2) 2) 2 640 480 of
         None \<Rightarrow> False
       | Some s' \<Rightarrow> overlaid 2 0 (document s'))
   \<and> (case imageLoaded exampleHost
              (applyNoise_selection (applyNoise_selection exampleLoadingPage 2) 2) 2 640 480 of
         None \<Rightarrow> False
       | Some s' \<Rightarrow> overlaid 2 0 (document s'))"
proof -
  note a = examplePage_image
  note a' = examplePage_element
  note b = exampleOverlayPage_image
  note c = exampleLoadingPage_image
  have fp: "\<And>f (x::page). (f ^^ Suc (Suc 0)) x = f (f x)" by simp
  note A = applyNoise_idempotent [OF a(1) a'(1) a(3), of "Suc 0" exampleHost 640 480,
      unfolded a'(3) fp]
  note B = applyNoise_idempotent [OF b(1) exampleOverlayPage_element b(3),
      of "Suc 0" exampleHost 640 480]
  note C = applyNoise_idempotent [OF c(1) c(2) c(3), of "Suc 0" exampleHost 640 480,
      unfolded c(7) fp]
  from A a(5) a(2) have r1:
    "overlaid 2 0 (document (applyNoise (applyNoise examplePage 2) 2))"
    "applyNoise (applyNoise examplePage 2) 2 = applyNoise examplePage 2"
    "overlaid 2 0 (document (applyNoise_selection (applyNoise_selection examplePage 2) 2))"
    "applyNoise_selection (applyNoise_selection examplePage 2) 2 =
       applyNoise_selection examplePage 2"
    by blast+
  from B b(5) have r2: "applyNoise exampleOverlayPage 2 = exampleOverlayPage" by blast
  from C c(4) c(5) c(6) have
    l1: "\<forall>s'. imageLoaded exampleHost (applyNoise (applyNoise exampleLoadingPage 2) 2) 2 640 480
            = Some s' \<longrightarrow> overlaid 2 0 (document s')"
    and t1: "imageLoaded exampleHost (applyNoise (applyNoise exampleLoadingPage 2) 2) 2 640 480
            \<noteq> None"
    and l2: "\<forall>s'. imageLoaded exampleHost
              (applyNoise_selection (applyNoise_selection exampleLoadingPage 2) 2) 2 640 480
            = Some s' \<longrightarrow> overlaid 2 0 (document s')"
    and t2: "imageLoaded exampleHost
              (applyNoise_selection (applyNoise_selection exampleLoadingPage 2) 2) 2 640 480
            \<noteq> None"
    by blast+
  from l1 t1 have r3:
    "case imageLoaded exampleHost (applyNoise (applyNoise exampleLoadingPage 2) 2) 2 640 480 of
         None \<Rightarrow> False
       | Some s' \<Rightarrow> overlaid 2 0 (document s')"
    by (cases "imageLoaded exampleHost (applyNoise (applyNoise exampleLoadingPage 2) 2) 2 640 480")
      simp_all
  from l2 t2 have r4:
    "case imageLoaded exampleHost
              (applyNoise_selection (applyNoise_selection exampleLoadingPage 2) 2) 2 640 480 of
         None \<Rightarrow> False
       | Some s' \<Rightarrow> overlaid 2 0 (document s')"
    by (cases "imageLoaded exampleHost
              (applyNoise_selection (applyNoise_selection exampleLoadingPage 2) 2) 2 640 480")
      simp_all
  show ?thesis
    using a(1) a'(1) a(3) a(5) a(2) a'(3) r1 b(1) exampleOverlayPage_element b(3) b(5) r2
      c r3 r4
    by blast
qed

lemma exampleDetachedPage_image:
  "elementNode 7 (document exampleDetachedPage)"
  "loadedElement 7 (document exampleDetachedPage)"
  "getAttribute 7 NOISE_APPLIED_ATTR (document exampleDetachedPage) \<noteq> Some ''true''"
  "closest NOISE_WRAPPER_CLASS 7 (document exampleDetachedPage) = None"
  "parentNode 7 (document exampleDetachedPage) = None"
  "overlaysOnPage (document exampleDetachedPage) = 0"
  "distinct (map fst (nodes (document exampleDetachedPage)))"
  by (simp_all add: exampleDetachedPage_def examplePage_def exampleDocument_def exampleImage_def
      nodes_def elementNode_def loadedElement_def getAttribute_def overlaysOnPage_def
      lookup_def parentNode_def closest_def pathTo_def matches_def
      createElement_def ELEMENT_NODE_def DOCUMENT_NODE_def NOISE_OVERLAY_CLASS_def
      NOISE_WRAPPER_CLASS_def)

lemma exampleCrowdedPage_image:
  "distinct (map fst (nodes (document exampleCrowdedPage)))"
  "lookup 2 (document exampleCrowdedPage) \<noteq> None"
  "attached 2 (document exampleCrowdedPage)"
  "loadedElement 2 (document exampleCrowdedPage)"
  "getAttribute 2 NOISE_APPLIED_ATTR (document exampleCrowdedPage) \<noteq> Some ''true''"
  "scopeOverlays 2 (document exampleCrowdedPage) = 2"
  by (simp_all add: exampleCrowdedPage_def examplePage_def exampleImage_def
      nodes_def loadedElement_def getAttribute_def attached_def scopeOverlays_def overlaysIn_def
      lookup_def parentNode_def closest_def pathTo_def matches_def
      createElement_def ELEMENT_NODE_def DOCUMENT_NODE_def NOISE_OVERLAY_CLASS_def
      NOISE_WRAPPER_CLASS_def)

text \<open>
  Three pages on which the claim fails as it is written. An image that is marked
  processed and has no overlay: the page-wide \<open>applyNoise\<close> skips it and no overlay
  exists afterward, and the selection \<open>applyNoise\<close> does not skip it, it wraps the image
  and gives it an overlay. A loaded image element that has no parent: neither script
  gives it a wrapper or an overlay. A loaded image in a wrapper that already holds two
  overlays: both scripts reuse the first and leave two.
\<close>

theorem applyNoise_marked_counterexample:
  "getAttribute 2 NOISE_APPLIED_ATTR (document exampleMarkedPage) = Some ''true''
   \<and> applyNoise exampleMarkedPage 2 = exampleMarkedPage
   \<and> overlaysOnPage (document (applyNoise exampleMarkedPage 2)) = 0
   \<and> applyNoise_selection exampleMarkedPage 2 \<noteq> exampleMarkedPage
   \<and> overlaysOnPage (document (applyNoise_selection exampleMarkedPage 2)) = 1
   \<and> elementNode 7 (document exampleDetachedPage)
   \<and> loadedElement 7 (document exampleDetachedPage)
   \<and> getAttribute 7 NOISE_APPLIED_ATTR (document exampleDetachedPage) \<noteq> Some ''true''
   \<and> applyNoise exampleDetachedPage 7 = exampleDetachedPage
   \<and> applyNoise_selection exampleDetachedPage 7 = exampleDetachedPage
   \<and> closest NOISE_WRAPPER_CLASS 7 (document exampleDetachedPage) = None
   \<and> overlaysOnPage (document exampleDetachedPage) = 0
   \<and> loadedElement 2 (document exampleCrowdedPage)
   \<and> getAttribute 2 NOISE_APPLIED_ATTR (document exampleCrowdedPage) \<noteq> Some ''true''
   \<and> scopeOverlays 2 (document (applyNoise exampleCrowdedPage 2)) = 2
   \<and> scopeOverlays 2 (document (applyNoise_selection exampleCrowdedPage 2)) = 2"
proof -
  have skip: "applyNoise exampleMarkedPage 2 = exampleMarkedPage"
    using exampleMarkedPage_image(1) by (rule applyNoise_marked)
  have one: "overlaysOnPage (document (applyNoise_selection exampleMarkedPage 2)) = 1"
    unfolding exampleMarkedPage_applied
    by (simp add: overlaysOnPage_def nodes_def matches_def exampleImage_def createElement_def
        createOverlay_def overlayStyle_def
        ELEMENT_NODE_def DOCUMENT_NODE_def NOISE_OVERLAY_CLASS_def NOISE_WRAPPER_CLASS_def)
  have "document (applyNoise_selection exampleMarkedPage 2) \<noteq> document exampleMarkedPage"
    using one exampleMarkedPage_image(4) by auto
  then have diff: "applyNoise_selection exampleMarkedPage 2 \<noteq> exampleMarkedPage" by auto
  note d = exampleDetachedPage_image
  have ew: "ensureWrapper (document exampleDetachedPage) 7 = (None, document exampleDetachedPage)"
    by (simp add: ensureWrapper_def d(4) d(5) Let_def)
  have d1: "applyNoise exampleDetachedPage 7 = exampleDetachedPage"
    by (simp add: applyNoise_loaded [OF d(2) d(3)] doApply_def ew)
  have d2: "applyNoise_selection exampleDetachedPage 7 = exampleDetachedPage"
    by (simp add: applyNoise_selection_loaded [OF d(2)] doApply_selection_def ew)
  note c = exampleCrowdedPage_image
  have c1: "scopeOverlays 2 (document (applyNoise exampleCrowdedPage 2)) = 2"
    unfolding applyNoise_loaded [OF c(4) c(5)] doApply_doApplyWith
      doApplyWith_step(3) [OF c(1) c(2) c(3)] c(6)
    by simp
  have c2: "scopeOverlays 2 (document (applyNoise_selection exampleCrowdedPage 2)) = 2"
    unfolding applyNoise_selection_loaded [OF c(4)] doApply_selection_doApplyWith
      doApplyWith_step(3) [OF c(1) c(2) c(3)] c(6)
    by simp
  show ?thesis
    using exampleMarkedPage_image(1) exampleMarkedPage_image(4) skip one diff
      d(1) d(2) d(3) d(4) d(6) d1 d2 c(4) c(5) c1 c2
    by simp
qed

section \<open>Selecting one image after another\<close>







lemmas example_defs =
  exampleLoadingPage_def examplePage_def exampleImage_def exampleHost_def
  selectImage_def notifySelectionChanged_def applyNoise_selection_def doApply_selection_def
  removeOverlay_def ensureWrapper_def classList_add_def classList_remove_def
  setAttribute_def removeAttribute_def addLoadListener_def
  closest_def parentNode_def querySelector_def pathTo_def lookup_def matches_def
  freshId_def nodes_def createElement_def Let_def
  ELEMENT_NODE_def DOCUMENT_NODE_def NOISE_OVERLAY_CLASS_def NOISE_WRAPPER_CLASS_def
  NOISE_APPLIED_ATTR_def SELECTED_CLASS_def

lemma loading_select_3:
  "document (selectImage exampleHost exampleLoadingPage 3) =
     [Elem 0 ((createElement ''#document'')\<lparr>nodeType := DOCUMENT_NODE\<rparr>)
        [Elem 1 (createElement ''body'')
           [Elem 2 (createElement ''img'') [],
            Elem 4 ((createElement ''span'')\<lparr>classList := [NOISE_WRAPPER_CLASS]\<rparr>)
              [Elem 3 ((createElement ''img'')\<lparr>classList := [SELECTED_CLASS],
                         attributes := [(NOISE_APPLIED_ATTR, ''true'')],
                         isComplete := True, naturalWidth := 640, naturalHeight := 480\<rparr>) [],
               Elem 5 (createOverlay exampleLoadingPage) []]]]]"
  by (simp add: example_defs createOverlay_def overlayStyle_def)






end
